theory Spec2Isabelle
  imports Main "HOL-Library.Char_ord" "HOL-Library.List_Lexorder" "HOL-Library.Sublist"
begin

section \<open>liftBigWig: the overlap-adjustment pass and the pipeline driver\<close>

text \<open>
  A shallow embedding of \<^verbatim>\<open>liftBigWig.py\<close>. Text is modelled as \<open>string\<close>; the model
  follows Python on ASCII text (the bedGraph format). Python's \<open>str.split\<close>, \<open>str.strip\<close>
  and \<open>int\<close> also accept whitespace and decimal digits outside ASCII; those are outside
  the model, as is the interpreter's optional limit on the number of digits of an integer
  string.
\<close>

subsection \<open>Exceptions\<close>

text \<open>
  One constructor for each way the code can raise. The first three are Python's
  \<^verbatim>\<open>ValueError\<close>: the two \<^verbatim>\<open>raise ValueError(msg)\<close> of the driver (with the message),
  the unpacking of a list whose length is not 4 (with the length), and \<^verbatim>\<open>int(s)\<close> on a
  string that is no integer literal (with the string). The last three are Python's
  \<^verbatim>\<open>OSError\<close> and its two subclasses for a missing file and for a refused access (with
  the path or the program).
\<close>

datatype error =
    ConfigValueError string
  | UnpackValueError nat
  | IntValueError string
  | IndexError
  | FileNotFoundError string
  | PermissionError string
  | OSError string

fun is_ValueError :: "error \<Rightarrow> bool" where
  "is_ValueError (ConfigValueError m) = True"
| "is_ValueError (UnpackValueError n) = True"
| "is_ValueError (IntValueError s) = True"
| "is_ValueError IndexError = False"
| "is_ValueError (FileNotFoundError p) = False"
| "is_ValueError (PermissionError p) = False"
| "is_ValueError (OSError p) = False"

subsection \<open>Python's string operations\<close>

definition TAB :: char where
  "TAB = char_of (9::nat)"

definition NL :: char where
  "NL = char_of (10::nat)"

definition CR :: char where
  "CR = char_of (13::nat)"

text \<open>\<^verbatim>\<open>str.isspace\<close> on ASCII: codes 9 to 13 and 28 to 32.\<close>

definition is_space :: "char \<Rightarrow> bool" where
  "is_space c = (let n = (of_char c :: nat) in (9 \<le> n \<and> n \<le> 13) \<or> (28 \<le> n \<and> n \<le> 32))"

definition is_digit :: "char \<Rightarrow> bool" where
  "is_digit c = (let n = (of_char c :: nat) in 48 \<le> n \<and> n \<le> 57)"

definition digit_val :: "char \<Rightarrow> nat" where
  "digit_val c = of_char c - 48"

definition digit_char :: "nat \<Rightarrow> char" where
  "digit_char d = char_of (48 + d)"

text \<open>\<^verbatim>\<open>s.strip()\<close>: leading and trailing whitespace removed.\<close>

definition py_strip :: "string \<Rightarrow> string" where
  "py_strip s = rev (dropWhile is_space (rev (dropWhile is_space s)))"

text \<open>
  \<^verbatim>\<open>s.split()\<close> with no separator: the maximal runs of non-whitespace characters, in
  order. \<open>split_from tok s\<close> scans \<open>s\<close> with the token \<open>tok\<close> collected so far.
\<close>

fun split_from :: "string \<Rightarrow> string \<Rightarrow> string list" where
  "split_from tok [] = (if tok = [] then [] else [tok])"
| "split_from tok (c # cs) =
     (if is_space c
      then (if tok = [] then split_from [] cs else tok # split_from [] cs)
      else split_from (tok @ [c]) cs)"

definition py_split :: "string \<Rightarrow> string list" where
  "py_split s = split_from [] s"

text \<open>
  \<^verbatim>\<open>int(s)\<close> in base 10: surrounding whitespace is ignored, then an optional sign, then
  decimal digits, where single underscores may stand between two digits. \<open>None\<close> is the
  \<^verbatim>\<open>ValueError\<close>. \<open>parse_digits acc prev s\<close> reads \<open>s\<close> with the value \<open>acc\<close> read so
  far; \<open>prev\<close> tells whether the previous character was a digit.
\<close>

fun parse_digits :: "nat \<Rightarrow> bool \<Rightarrow> string \<Rightarrow> nat option" where
  "parse_digits acc prev [] = (if prev then Some acc else None)"
| "parse_digits acc prev (c # cs) =
     (if is_digit c then parse_digits (10 * acc + digit_val c) True cs
      else if c = CHR ''_'' \<and> prev then parse_digits acc False cs
      else None)"

definition parse_signed :: "string \<Rightarrow> int option" where
  "parse_signed s =
     (case s of
        [] \<Rightarrow> None
      | c # cs \<Rightarrow>
          if c = CHR ''-'' then map_option (\<lambda>n. - int n) (parse_digits 0 False cs)
          else if c = CHR ''+'' then map_option int (parse_digits 0 False cs)
          else map_option int (parse_digits 0 False s))"

definition py_int :: "string \<Rightarrow> int option" where
  "py_int s = parse_signed (py_strip s)"

text \<open>\<^verbatim>\<open>str(n)\<close> for an integer, as the f-string formats \<open>start\<close> and \<open>end\<close>.\<close>

function show_nat :: "nat \<Rightarrow> string" where
  "show_nat n = (if n < 10 then [digit_char n] else show_nat (n div 10) @ [digit_char (n mod 10)])"
  by pat_completeness auto
termination
  by (relation "measure (\<lambda>n. n)") auto

declare show_nat.simps [simp del]

definition show_int :: "int \<Rightarrow> string" where
  "show_int i = (if i < 0 then CHR ''-'' # show_nat (nat (- i)) else show_nat (nat i))"

text \<open>
  Iterating over a file opened in text mode: the lines of the text, each with its
  terminator. Universal newlines: \<^verbatim>\<open>\r\n\<close> and a lone \<^verbatim>\<open>\r\<close> end a line too and are
  read as \<^verbatim>\<open>\n\<close>. A last line without terminator is yielded as it is.
  \<open>lines_from cur s\<close> scans \<open>s\<close> with the line \<open>cur\<close> collected so far.
\<close>

fun lines_from :: "string \<Rightarrow> string \<Rightarrow> string list" where
  "lines_from cur [] = (if cur = [] then [] else [cur])"
| "lines_from cur [c] =
     (if c = NL \<or> c = CR then [cur @ [NL]] else [cur @ [c]])"
| "lines_from cur (c # d # cs) =
     (if c = NL then (cur @ [NL]) # lines_from [] (d # cs)
      else if c = CR then
        (if d = NL then (cur @ [NL]) # lines_from [] cs
         else (cur @ [NL]) # lines_from [] (d # cs))
      else lines_from (cur @ [c]) (d # cs))"

definition py_lines :: "string \<Rightarrow> string list" where
  "py_lines s = lines_from [] s"

subsection \<open>The data: intervals and the cursor of the pass\<close>

text \<open>
  The four fields of a bedGraph line, as \<open>adjust_overlaps\<close> holds them after line 33:
  \<open>chrom\<close> and \<open>value\<close> are the tokens of the line, \<open>start\<close> and \<open>end\<close> are integers.
\<close>

record interval =
  i_chrom :: string
  i_start :: int
  i_end :: int
  i_value :: string

text \<open>The two variables of lines 27 and 28; \<open>None\<close> is Python's \<^verbatim>\<open>None\<close>.\<close>

record cursor =
  current_chrom :: "string option"
  current_end :: int

definition init_cursor :: cursor where
  "init_cursor = \<lparr>current_chrom = None, current_end = 0\<rparr>"

subsection \<open>\<open>adjust_overlaps\<close>\<close>

text \<open>Lines 32 and 33: the tokens of the stripped line are unpacked into four names.\<close>

definition parse_line :: "string \<Rightarrow> error + interval" where
  "parse_line line =
     (case py_split (py_strip line) of
        [chrom, start, end', value'] \<Rightarrow>
          (case py_int start of
             None \<Rightarrow> Inl (IntValueError start)
           | Some s \<Rightarrow>
               (case py_int end' of
                  None \<Rightarrow> Inl (IntValueError end')
                | Some e \<Rightarrow> Inr \<lparr>i_chrom = chrom, i_start = s, i_end = e, i_value = value'\<rparr>))
      | toks \<Rightarrow> Inl (UnpackValueError (length toks)))"

text \<open>Lines 35 to 37: the cursor is reset when the chromosome changes.\<close>

definition reset_cursor :: "cursor \<Rightarrow> string \<Rightarrow> cursor" where
  "reset_cursor cur chrom =
     (if Some chrom \<noteq> current_chrom cur
      then \<lparr>current_chrom = Some chrom, current_end = 0\<rparr>
      else cur)"

text \<open>Lines 39 to 41: a start before the cursor is moved to the cursor.\<close>

definition clip_start :: "cursor \<Rightarrow> int \<Rightarrow> int" where
  "clip_start cur start = (if start < current_end cur then current_end cur else start)"

text \<open>
  Lines 35 to 45 for one interval: the new cursor, and the interval written (if any).
\<close>

definition adjust_step :: "cursor \<Rightarrow> interval \<Rightarrow> cursor \<times> interval option" where
  "adjust_step cur iv =
     (let cur1 = reset_cursor cur (i_chrom iv);
          start = clip_start cur1 (i_start iv)
      in if start < i_end iv
         then (cur1\<lparr>current_end := i_end iv\<rparr>, Some (iv\<lparr>i_start := start\<rparr>))
         else (cur1, None))"

text \<open>Line 44: the f-string written for an interval.\<close>

definition write_line :: "interval \<Rightarrow> string" where
  "write_line iv =
     i_chrom iv @ [TAB] @ show_int (i_start iv) @ [TAB] @ show_int (i_end iv) @ [TAB]
       @ i_value iv @ [NL]"

text \<open>
  The body of the loop (lines 32 to 45) on the cursor and the text written so far. An
  exception can only come from lines 32 and 33, before anything is changed.
\<close>

definition loop_body :: "cursor \<times> string \<Rightarrow> string \<Rightarrow> error + cursor \<times> string" where
  "loop_body st line =
     (case parse_line line of
        Inl e \<Rightarrow> Inl e
      | Inr iv \<Rightarrow>
          (case adjust_step (fst st) iv of
             (cur', None) \<Rightarrow> Inr (cur', snd st)
           | (cur', Some ov) \<Rightarrow> Inr (cur', snd st @ write_line ov)))"

text \<open>
  The loop of line 31. An exception leaves the loop; the state then holds what had been
  written before the offending line.
\<close>

fun for_lines :: "cursor \<times> string \<Rightarrow> string list \<Rightarrow> error option \<times> (cursor \<times> string)" where
  "for_lines st [] = (None, st)"
| "for_lines st (l # ls) =
     (case loop_body st l of
        Inl e \<Rightarrow> (Some e, st)
      | Inr st' \<Rightarrow> for_lines st' ls)"

text \<open>
  \<open>adjust_overlaps\<close> on the text of the input file: the exception raised (if any) and the
  text of the output file when the \<^verbatim>\<open>with\<close> block is left.
\<close>

definition adjust_overlaps :: "string \<Rightarrow> error option \<times> string" where
  "adjust_overlaps infile =
     (case for_lines (init_cursor, []) (py_lines infile) of
        (r, (cur, out)) \<Rightarrow> (r, out))"

subsection \<open>The pass on intervals\<close>

text \<open>
  The intervals a text holds, line by line (the first exception, if a line does not
  parse), and the intervals the loop emits from a list of intervals. These speak about
  the input and output of the pass as sequences of intervals.
\<close>

fun parse_lines :: "string list \<Rightarrow> error + interval list" where
  "parse_lines [] = Inr []"
| "parse_lines (l # ls) =
     (case parse_line l of
        Inl e \<Rightarrow> Inl e
      | Inr iv \<Rightarrow> (case parse_lines ls of Inl e \<Rightarrow> Inl e | Inr ivs \<Rightarrow> Inr (iv # ivs)))"

definition read_intervals :: "string \<Rightarrow> error + interval list" where
  "read_intervals text = parse_lines (py_lines text)"

fun emit :: "cursor \<Rightarrow> interval list \<Rightarrow> interval list" where
  "emit cur [] = []"
| "emit cur (iv # ivs) =
     (case adjust_step cur iv of
        (cur', None) \<Rightarrow> emit cur' ivs
      | (cur', Some ov) \<Rightarrow> ov # emit cur' ivs)"

subsection \<open>Predicates on sequences of intervals\<close>

text \<open>
  The precondition of the pass: the intervals are sorted ascending by chromosome (as
  strings, byte by byte) and then by start (as numbers), as \<^verbatim>\<open>sort -k1,1 -k2,2n\<close> leaves
  them. An interval is well formed when \<open>start < end\<close>.
\<close>

definition chrom_start_le :: "interval \<Rightarrow> interval \<Rightarrow> bool" where
  "chrom_start_le a b =
     (i_chrom a < i_chrom b \<or> (i_chrom a = i_chrom b \<and> i_start a \<le> i_start b))"

definition sorted_by_chrom_start :: "interval list \<Rightarrow> bool" where
  "sorted_by_chrom_start ivs = sorted_wrt chrom_start_le ivs"

definition well_formed :: "interval \<Rightarrow> bool" where
  "well_formed iv = (i_start iv < i_end iv)"

text \<open>
  What the pass is to establish: of two intervals on one chromosome, the earlier one ends
  at or before the start of the later one, and starts before it; every interval has
  positive length.
\<close>

definition precedes :: "interval \<Rightarrow> interval \<Rightarrow> bool" where
  "precedes a b = (i_chrom a = i_chrom b \<longrightarrow> i_start a < i_start b \<and> i_end a \<le> i_start b)"

definition repaired :: "interval list \<Rightarrow> bool" where
  "repaired ovs = (sorted_wrt precedes ovs \<and> list_all well_formed ovs)"

text \<open>
  An emitted interval against the input interval it comes from: only the start may
  differ, and only forward.
\<close>

definition moved_forward :: "interval \<Rightarrow> interval \<Rightarrow> bool" where
  "moved_forward iv ov =
     (i_chrom ov = i_chrom iv \<and> i_end ov = i_end iv \<and> i_value ov = i_value iv
      \<and> i_start iv \<le> i_start ov)"

text \<open>
  A token is what \<open>py_split\<close> yields: a non-empty string without whitespace. The
  chromosome and the value of a parsed interval are tokens.
\<close>

definition is_token :: "string \<Rightarrow> bool" where
  "is_token t = (t \<noteq> [] \<and> list_all (\<lambda>c. \<not> is_space c) t)"

definition tokens_ok :: "interval \<Rightarrow> bool" where
  "tokens_ok iv = (is_token (i_chrom iv) \<and> is_token (i_value iv))"

definition no_newline :: "string \<Rightarrow> bool" where
  "no_newline s = list_all (\<lambda>c. c \<noteq> NL \<and> c \<noteq> CR) s"

text \<open>
  A line that does not hold exactly four fields, or whose second or third field is no
  integer literal.
\<close>

definition malformed :: "string \<Rightarrow> bool" where
  "malformed line =
     (case py_split (py_strip line) of
        [chrom, start, end', value'] \<Rightarrow> py_int start = None \<or> py_int end' = None
      | toks \<Rightarrow> True)"

section \<open>The pipeline driver\<close>

subsection \<open>The world of the driver\<close>

text \<open>
  What the driver does to the outside is recorded as a trace of events, in order: a call
  of \<open>print_progress\<close> (with its arguments), the final \<^verbatim>\<open>print\<close> (with the output file),
  \<^verbatim>\<open>os.path.exists\<close>, \<^verbatim>\<open>os.chmod\<close>, \<^verbatim>\<open>open\<close> for reading and for writing,
  \<^verbatim>\<open>os.remove\<close>, and \<^verbatim>\<open>subprocess.run\<close>: \<open>Run\<close> for a program that ran (with its exit
  status), \<open>ExecFailed\<close> for a program that could not be started, \<open>RunShell\<close> for a
  command line given to the shell (with the shell's exit status).
\<close>

datatype event =
    Progress nat nat string
  | Completed string
  | Exists string
  | Chmod string
  | OpenRead string
  | OpenWrite string
  | Remove string
  | Run string "string list" int
  | ExecFailed string "string list"
  | RunShell string int

text \<open>The file system maps a path to the text of the file; the world is the file system and the trace.\<close>

type_synonym files = "string \<rightharpoonup> string"

record world =
  files :: files
  trace :: "event list"

text \<open>
  Why a program could not be started, and the exception \<^verbatim>\<open>subprocess.run\<close> raises for it:
  \<^verbatim>\<open>FileNotFoundError\<close> when the program is not found, \<^verbatim>\<open>PermissionError\<close> when it is
  found but may not be executed, \<^verbatim>\<open>OSError\<close> for any other failure of the start (such as
  a file that is no executable).
\<close>

datatype start_failure = NotFound | NotPermitted | OtherFailure

fun start_error :: "start_failure \<Rightarrow> string \<Rightarrow> error" where
  "start_error NotFound prog = FileNotFoundError prog"
| "start_error NotPermitted prog = PermissionError prog"
| "start_error OtherFailure prog = OSError prog"

text \<open>
  The external programs are a parameter. \<open>exec env prog args fs\<close> is what running
  \<open>prog\<close> with \<open>args\<close> on the file system \<open>fs\<close> gives: \<open>Inl\<close> with the reason when the
  program cannot be started, else the exit status and the new file system.
  \<open>shell env cmd fs\<close> is the same for \<^verbatim>\<open>shell=True\<close>: the shell always starts, and a
  command it cannot find shows as the exit status 127.
\<close>

record environment =
  exec :: "string \<Rightarrow> string list \<Rightarrow> files \<Rightarrow> start_failure + int \<times> files"
  shell :: "string \<Rightarrow> files \<Rightarrow> int \<times> files"

text \<open>
  A computation of the driver takes the world and gives a value or an exception, and
  the new world.
\<close>

type_synonym 'a io = "world \<Rightarrow> (error + 'a) \<times> world"

definition io_return :: "'a \<Rightarrow> 'a io" where
  "io_return x = (\<lambda>w. (Inr x, w))"

definition io_raise :: "error \<Rightarrow> 'a io" where
  "io_raise e = (\<lambda>w. (Inl e, w))"

definition io_bind :: "'a io \<Rightarrow> ('a \<Rightarrow> 'b io) \<Rightarrow> 'b io" where
  "io_bind m f = (\<lambda>w. case m w of (Inl e, w') \<Rightarrow> (Inl e, w') | (Inr x, w') \<Rightarrow> f x w')"

definition io_seq :: "unit io \<Rightarrow> 'b io \<Rightarrow> 'b io" where
  "io_seq m n = io_bind m (\<lambda>u. n)"

definition log :: "event \<Rightarrow> unit io" where
  "log ev = (\<lambda>w. (Inr (), w\<lparr>trace := trace w @ [ev]\<rparr>))"

fun for_each :: "'a list \<Rightarrow> ('a \<Rightarrow> unit io) \<Rightarrow> unit io" where
  "for_each [] body = io_return ()"
| "for_each (x # xs) body = io_seq (body x) (for_each xs body)"

text \<open>The file operations of Python the driver uses.\<close>

definition path_exists :: "string \<Rightarrow> bool io" where
  "path_exists p = io_seq (log (Exists p)) (\<lambda>w. (Inr (files w p \<noteq> None), w))"

definition chmod :: "string \<Rightarrow> unit io" where
  "chmod p =
     io_seq (log (Chmod p))
       (\<lambda>w. if files w p = None then (Inl (FileNotFoundError p), w) else (Inr (), w))"

definition remove :: "string \<Rightarrow> unit io" where
  "remove p =
     io_seq (log (Remove p))
       (\<lambda>w. if files w p = None then (Inl (FileNotFoundError p), w)
            else (Inr (), w\<lparr>files := (files w)(p := None)\<rparr>))"

definition open_read :: "string \<Rightarrow> unit io" where
  "open_read p =
     io_seq (log (OpenRead p))
       (\<lambda>w. if files w p = None then (Inl (FileNotFoundError p), w) else (Inr (), w))"

definition open_write :: "string \<Rightarrow> unit io" where
  "open_write p =
     io_seq (log (OpenWrite p)) (\<lambda>w. (Inr (), w\<lparr>files := (files w)(p \<mapsto> [])\<rparr>))"

text \<open>
  Reading the whole text of an open file, and the text an output file holds when its
  \<^verbatim>\<open>with\<close> block is left; \<open>reraise\<close> lets the exception of the block (if any) go on.
\<close>

definition read_text :: "string \<Rightarrow> string io" where
  "read_text p = (\<lambda>w. (Inr (case files w p of None \<Rightarrow> [] | Some t \<Rightarrow> t), w))"

definition write_text :: "string \<Rightarrow> string \<Rightarrow> unit io" where
  "write_text p t = (\<lambda>w. (Inr (), w\<lparr>files := (files w)(p \<mapsto> t)\<rparr>))"

definition reraise :: "error option \<Rightarrow> unit io" where
  "reraise r = (case r of None \<Rightarrow> io_return () | Some e \<Rightarrow> io_raise e)"

text \<open>
  \<^verbatim>\<open>subprocess.run([prog, *args])\<close> and \<^verbatim>\<open>subprocess.run(cmd, shell=True)\<close>, both
  without \<^verbatim>\<open>check=True\<close>: the exit status is returned in an object that the driver drops.
\<close>

definition subprocess_run :: "environment \<Rightarrow> string \<Rightarrow> string list \<Rightarrow> unit io" where
  "subprocess_run env prog args =
     (\<lambda>w. case exec env prog args (files w) of
            Inl failure \<Rightarrow>
              (Inl (start_error failure prog), w\<lparr>trace := trace w @ [ExecFailed prog args]\<rparr>)
          | Inr (status, fs) \<Rightarrow>
              (Inr (), \<lparr>files = fs, trace = trace w @ [Run prog args status]\<rparr>))"

definition subprocess_run_shell :: "environment \<Rightarrow> string \<Rightarrow> unit io" where
  "subprocess_run_shell env cmd =
     (\<lambda>w. case shell env cmd (files w) of
            (status, fs) \<Rightarrow> (Inr (), \<lparr>files = fs, trace = trace w @ [RunShell cmd status]\<rparr>))"

subsection \<open>\<open>download_resources\<close> and \<open>print_progress\<close>\<close>

definition resources :: "(string \<times> string) list" where
  "resources =
     [(''http://hgdownload.soe.ucsc.edu/admin/exe/linux.x86_64/bigWigToBedGraph'',
         ''bigWigToBedGraph''),
      (''http://hgdownload.soe.ucsc.edu/admin/exe/linux.x86_64/bedGraphToBigWig'',
         ''bedGraphToBigWig''),
      (''http://hgdownload.soe.ucsc.edu/admin/exe/linux.x86_64/bedClip'', ''bedClip''),
      (''http://hgdownload.cse.ucsc.edu/goldenpath/hg19/liftOver/hg19ToHg38.over.chain.gz'',
         ''hg19ToHg38.over.chain.gz''),
      (''http://hgdownload.cse.ucsc.edu/goldenpath/hg38/liftOver/hg38ToHg19.over.chain.gz'',
         ''hg38ToHg19.over.chain.gz''),
      (''https://hgdownload.cse.ucsc.edu/goldenpath/hg38/bigZips/hg38.chrom.sizes'',
         ''hg38.chrom.sizes''),
      (''https://hgdownload.cse.ucsc.edu/goldenpath/hg19/bigZips/hg19.chrom.sizes'',
         ''hg19.chrom.sizes'')]"

definition download_resources :: "environment \<Rightarrow> unit io" where
  "download_resources env =
     io_seq
       (for_each resources (\<lambda>(url, filename).
          io_bind (path_exists filename) (\<lambda>found.
            if \<not> found then subprocess_run env ''wget'' [url] else io_return ())))
       (for_each [''bigWigToBedGraph'', ''bedGraphToBigWig'', ''bedClip''] chmod)"

text \<open>
  \<open>print_progress\<close> writes to the console and sleeps; the model records the call.
\<close>

definition print_progress :: "nat \<Rightarrow> nat \<Rightarrow> string \<Rightarrow> unit io" where
  "print_progress step total_steps message = log (Progress step total_steps message)"

subsection \<open>\<open>adjust_overlaps\<close> on files\<close>

text \<open>
  Line 30: the input file is opened first, then the output file is created or truncated,
  then the lines are read.
\<close>

definition adjust_overlaps_files :: "string \<Rightarrow> string \<Rightarrow> unit io" where
  "adjust_overlaps_files input_file output_file =
     io_seq (open_read input_file)
       (io_seq (open_write output_file)
          (io_bind (read_text input_file) (\<lambda>text.
             case adjust_overlaps text of
               (r, out) \<Rightarrow> io_seq (write_text output_file out) (reraise r))))"

subsection \<open>\<open>convert_bigwig\<close>\<close>

text \<open>\<^verbatim>\<open>str.capitalize\<close> on ASCII: the first character in upper case, the others in lower case.\<close>

definition to_upper :: "char \<Rightarrow> char" where
  "to_upper c =
     (let n = (of_char c :: nat) in if 97 \<le> n \<and> n \<le> 122 then char_of (n - 32) else c)"

definition to_lower :: "char \<Rightarrow> char" where
  "to_lower c =
     (let n = (of_char c :: nat) in if 65 \<le> n \<and> n \<le> 90 then char_of (n + 32) else c)"

definition capitalize :: "string \<Rightarrow> string" where
  "capitalize s = (case s of [] \<Rightarrow> [] | c # cs \<Rightarrow> to_upper c # map to_lower cs)"

text \<open>Lines 91 to 95: the first field of every line of the sizes table; a blank line raises \<^verbatim>\<open>IndexError\<close>.\<close>

fun collect_chroms :: "string set \<Rightarrow> string list \<Rightarrow> error + string set" where
  "collect_chroms target_chroms [] = Inr target_chroms"
| "collect_chroms target_chroms (line # ls) =
     (case py_split (py_strip line) of
        [] \<Rightarrow> Inl IndexError
      | chrom # rest \<Rightarrow> collect_chroms (insert chrom target_chroms) ls)"

definition load_target_chroms :: "string \<Rightarrow> string set io" where
  "load_target_chroms chrom_sizes_file =
     io_seq (open_read chrom_sizes_file)
       (io_bind (read_text chrom_sizes_file) (\<lambda>text.
          case collect_chroms {} (py_lines text) of
            Inl e \<Rightarrow> io_raise e
          | Inr target_chroms \<Rightarrow> io_return target_chroms))"

text \<open>Lines 110 to 114: the lines whose first field is a target chromosome are copied.\<close>

fun filter_lines :: "string set \<Rightarrow> string \<Rightarrow> string list \<Rightarrow> error option \<times> string" where
  "filter_lines target_chroms out [] = (None, out)"
| "filter_lines target_chroms out (line # ls) =
     (case py_split line of
        [] \<Rightarrow> (Some IndexError, out)
      | chrom # rest \<Rightarrow>
          filter_lines target_chroms (if chrom \<in> target_chroms then out @ line else out) ls)"

definition filter_chromosomes :: "string set \<Rightarrow> unit io" where
  "filter_chromosomes target_chroms =
     io_seq (open_read ''output.bedGraph'')
       (io_seq (open_write ''filtered_output.bedGraph'')
          (io_bind (read_text ''output.bedGraph'') (\<lambda>text.
             case filter_lines target_chroms [] (py_lines text) of
               (r, out) \<Rightarrow> io_seq (write_text ''filtered_output.bedGraph'' out) (reraise r))))"

text \<open>Lines 129 to 132.\<close>

definition temp_files :: "string list" where
  "temp_files =
     [''input.bedGraph'', ''output.bedGraph'', ''filtered_output.bedGraph'',
      ''clipped_output.bedGraph'', ''sorted_output.bedGraph'', ''adjusted_output.bedGraph'']"

definition clean_up :: "unit io" where
  "clean_up =
     for_each temp_files (\<lambda>file.
       io_bind (path_exists file) (\<lambda>found. if found then remove file else io_return ()))"

text \<open>
  Lines 69 to 134, after the two checks. \<open>current_step\<close> is incremented after each step
  in the source; the model writes its value at each call.
\<close>

definition pipeline ::
  "environment \<Rightarrow> string \<Rightarrow> string \<Rightarrow> string \<Rightarrow> string \<Rightarrow> bool \<Rightarrow> unit io" where
  "pipeline env input_file output_file source_assembly target_assembly clean_temp =
     (let total_steps = 9;
          chain_file = source_assembly @ ''To'' @ capitalize target_assembly @ ''.over.chain.gz'';
          chrom_sizes_file = target_assembly @ ''.chrom.sizes''
      in
      io_seq (print_progress 1 total_steps ''Initializing genome conversion process...'')
     (io_seq (print_progress 2 total_steps ''Downloading resources...'')
     (io_seq (download_resources env)
     (io_seq (print_progress 3 total_steps ''Installing CrossMap...'')
     (io_seq (subprocess_run env ''pip'' [''install'', ''CrossMap''])
     (io_seq (print_progress 4 total_steps ''Loading target chromosome sizes...'')
     (io_bind (load_target_chroms chrom_sizes_file) (\<lambda>target_chroms.
      io_seq (print_progress 5 total_steps ''Converting bigWig to bedGraph...'')
     (io_seq (subprocess_run env ''./bigWigToBedGraph'' [input_file, ''input.bedGraph''])
     (io_seq (print_progress 6 total_steps ''Converting coordinates with CrossMap...'')
     (io_seq (subprocess_run env ''CrossMap''
                [''bed'', chain_file, ''input.bedGraph'', ''output.bedGraph''])
     (io_seq (print_progress 7 total_steps ''Filtering chromosomes and clipping coordinates...'')
     (io_seq (filter_chromosomes target_chroms)
     (io_seq (subprocess_run env ''./bedClip''
                [''filtered_output.bedGraph'', chrom_sizes_file, ''clipped_output.bedGraph''])
     (io_seq (subprocess_run_shell env
                ''sort -k1,1 -k2,2n clipped_output.bedGraph > sorted_output.bedGraph'')
     (io_seq (print_progress 8 total_steps ''Adjusting overlapping regions...'')
     (io_seq (adjust_overlaps_files ''sorted_output.bedGraph'' ''adjusted_output.bedGraph'')
     (io_seq (print_progress 9 total_steps ''Converting back to bigWig...'')
     (io_seq (subprocess_run env ''./bedGraphToBigWig''
                [''adjusted_output.bedGraph'', chrom_sizes_file, output_file])
     (io_seq (if clean_temp then clean_up else io_return ())
             (log (Completed output_file))))))))))))))))))))))"

text \<open>Lines 64 to 67, then the pipeline.\<close>

definition convert_bigwig ::
  "environment \<Rightarrow> string \<Rightarrow> string \<Rightarrow> string \<Rightarrow> string \<Rightarrow> bool \<Rightarrow> unit io" where
  "convert_bigwig env input_file output_file source_assembly target_assembly clean_temp =
     (if source_assembly \<notin> set [''hg19'', ''hg38''] \<or> target_assembly \<notin> set [''hg19'', ''hg38'']
      then io_raise
             (ConfigValueError
                (''Source and target assemblies must be either 'hg19' or 'hg38'' @ [CHR 0x27]))
      else if source_assembly = target_assembly
      then io_raise (ConfigValueError ''Source and target assemblies must be different'')
      else pipeline env input_file output_file source_assembly target_assembly clean_temp)"

subsection \<open>The driver up to a call of \<^verbatim>\<open>subprocess.run\<close>\<close>

text \<open>
  To speak about the world in which the driver calls a program, the part of
  \<open>convert_bigwig\<close> that runs before the call, for each call of \<^verbatim>\<open>subprocess.run\<close> with a
  list: before \<^verbatim>\<open>wget\<close> for the next resource (after the resources \<open>fetched\<close>), before
  \<^verbatim>\<open>pip\<close>, before \<^verbatim>\<open>bigWigToBedGraph\<close>, before \<^verbatim>\<open>CrossMap\<close>, before \<^verbatim>\<open>bedClip\<close> and
  before \<^verbatim>\<open>bedGraphToBigWig\<close>. Each runs the one before it, the call that one stops at,
  and the lines of the source up to the next call. \<open>raised_at w failure prog args\<close> is
  the outcome of a call that fails in the world \<open>w\<close>: the exception, and \<open>w\<close> with the
  failed start as the last event.
\<close>

definition up_to_fetch :: "environment \<Rightarrow> (string \<times> string) list \<Rightarrow> unit io" where
  "up_to_fetch env fetched =
     io_seq (print_progress 1 9 ''Initializing genome conversion process...'')
    (io_seq (print_progress 2 9 ''Downloading resources...'')
            (for_each fetched (\<lambda>(url, filename).
               io_bind (path_exists filename) (\<lambda>found.
                 if \<not> found then subprocess_run env ''wget'' [url] else io_return ()))))"

definition up_to_install :: "environment \<Rightarrow> unit io" where
  "up_to_install env =
     io_seq (print_progress 1 9 ''Initializing genome conversion process...'')
    (io_seq (print_progress 2 9 ''Downloading resources...'')
    (io_seq (download_resources env)
            (print_progress 3 9 ''Installing CrossMap...'')))"

definition up_to_decode :: "environment \<Rightarrow> string \<Rightarrow> string set io" where
  "up_to_decode env target_assembly =
     io_seq (up_to_install env)
    (io_seq (subprocess_run env ''pip'' [''install'', ''CrossMap''])
    (io_seq (print_progress 4 9 ''Loading target chromosome sizes...'')
    (io_bind (load_target_chroms (target_assembly @ ''.chrom.sizes'')) (\<lambda>target_chroms.
     io_seq (print_progress 5 9 ''Converting bigWig to bedGraph...'')
            (io_return target_chroms)))))"

definition up_to_lift :: "environment \<Rightarrow> string \<Rightarrow> string \<Rightarrow> string set io" where
  "up_to_lift env input_file target_assembly =
     io_bind (up_to_decode env target_assembly) (\<lambda>target_chroms.
     io_seq (subprocess_run env ''./bigWigToBedGraph'' [input_file, ''input.bedGraph''])
    (io_seq (print_progress 6 9 ''Converting coordinates with CrossMap...'')
            (io_return target_chroms)))"

definition up_to_clip :: "environment \<Rightarrow> string \<Rightarrow> string \<Rightarrow> string \<Rightarrow> unit io" where
  "up_to_clip env input_file source_assembly target_assembly =
     io_bind (up_to_lift env input_file target_assembly) (\<lambda>target_chroms.
     io_seq (subprocess_run env ''CrossMap''
               [''bed'', source_assembly @ ''To'' @ capitalize target_assembly @ ''.over.chain.gz'',
                ''input.bedGraph'', ''output.bedGraph''])
    (io_seq (print_progress 7 9 ''Filtering chromosomes and clipping coordinates...'')
            (filter_chromosomes target_chroms)))"

definition up_to_encode :: "environment \<Rightarrow> string \<Rightarrow> string \<Rightarrow> string \<Rightarrow> unit io" where
  "up_to_encode env input_file source_assembly target_assembly =
     io_seq (up_to_clip env input_file source_assembly target_assembly)
    (io_seq (subprocess_run env ''./bedClip''
               [''filtered_output.bedGraph'', target_assembly @ ''.chrom.sizes'',
                ''clipped_output.bedGraph''])
    (io_seq (subprocess_run_shell env
               ''sort -k1,1 -k2,2n clipped_output.bedGraph > sorted_output.bedGraph'')
    (io_seq (print_progress 8 9 ''Adjusting overlapping regions...'')
    (io_seq (adjust_overlaps_files ''sorted_output.bedGraph'' ''adjusted_output.bedGraph'')
            (print_progress 9 9 ''Converting back to bigWig...'')))))"

definition raised_at ::
  "world \<Rightarrow> start_failure \<Rightarrow> string \<Rightarrow> string list \<Rightarrow> (error + 'a) \<times> world" where
  "raised_at w failure prog args =
     (Inl (start_error failure prog), w\<lparr>trace := trace w @ [ExecFailed prog args]\<rparr>)"

subsection \<open>An environment for the examples\<close>

text \<open>
  Programs that copy their input file to their output file; \<open>bigWigToBedGraph\<close> writes
  two overlapping intervals; \<open>CrossMap\<close> copies and exits with status 1. In the second
  environment \<open>CrossMap\<close> is not found. The world holds the downloaded resources.
\<close>

definition example_exec :: "string \<Rightarrow> string list \<Rightarrow> files \<Rightarrow> start_failure + int \<times> files" where
  "example_exec prog args fs =
     (if prog = ''pip'' then Inr (0, fs)
      else if prog = ''./bigWigToBedGraph'' then
        (case args of
           [src, dst] \<Rightarrow>
             Inr (0, fs(dst \<mapsto> ''chr1'' @ [TAB] @ ''100'' @ [TAB] @ ''200'' @ [TAB] @ ''5.0'' @ [NL]
                          @ ''chr1'' @ [TAB] @ ''150'' @ [TAB] @ ''250'' @ [TAB] @ ''3.0'' @ [NL]))
         | _ \<Rightarrow> Inr (255, fs))
      else if prog = ''CrossMap'' then
        (case args of [b, c, src, dst] \<Rightarrow> Inr (1, fs(dst := fs src)) | _ \<Rightarrow> Inr (255, fs))
      else if prog = ''./bedClip'' \<or> prog = ''./bedGraphToBigWig'' then
        (case args of [src, s, dst] \<Rightarrow> Inr (0, fs(dst := fs src)) | _ \<Rightarrow> Inr (255, fs))
      else Inl NotFound)"

definition example_env :: environment where
  "example_env =
     \<lparr>exec = example_exec,
      shell = (\<lambda>cmd fs. (0, fs(''sorted_output.bedGraph'' := fs ''clipped_output.bedGraph'')))\<rparr>"

definition example_world :: world where
  "example_world =
     \<lparr>files =
        [''in.bw'' \<mapsto> [], ''bigWigToBedGraph'' \<mapsto> [], ''bedGraphToBigWig'' \<mapsto> [],
         ''bedClip'' \<mapsto> [], ''hg19ToHg38.over.chain.gz'' \<mapsto> [],
         ''hg38ToHg19.over.chain.gz'' \<mapsto> [],
         ''hg38.chrom.sizes'' \<mapsto> ''chr1'' @ [TAB] @ ''248956422'' @ [NL],
         ''hg19.chrom.sizes'' \<mapsto> ''chr1'' @ [TAB] @ ''249250621'' @ [NL]],
      trace = []\<rparr>"

definition example_env_no_crossmap :: environment where
  "example_env_no_crossmap =
     example_env\<lparr>exec :=
       (\<lambda>prog args fs.
          if prog = ''CrossMap'' then Inl NotFound else example_exec prog args fs)\<rparr>"

definition example_run :: "(error + unit) \<times> world" where
  "example_run = convert_bigwig example_env ''in.bw'' ''out.bw'' ''hg19'' ''hg38'' True example_world"

subsection \<open>Predicates on computations of the driver\<close>

text \<open>
  \<open>safe I E m\<close>: started in a world with \<open>I\<close>, the computation \<open>m\<close> returns in a world
  with \<open>I\<close> or raises an exception \<open>e\<close> in a world with \<open>E e\<close>.
\<close>

definition safe :: "(world \<Rightarrow> bool) \<Rightarrow> (error \<Rightarrow> world \<Rightarrow> bool) \<Rightarrow> 'a io \<Rightarrow> bool" where
  "safe I E m = (\<forall>w. I w \<longrightarrow> (case m w of (Inl e, w') \<Rightarrow> E e w' | (Inr x, w') \<Rightarrow> I w'))"

text \<open>The exceptions of lines 65 and 67, and the computations that never raise one.\<close>

fun is_config :: "error \<Rightarrow> bool" where
  "is_config (ConfigValueError m) = True"
| "is_config e = False"

definition no_config :: "'a io \<Rightarrow> bool" where
  "no_config m = safe (\<lambda>w. True) (\<lambda>e w. \<not> is_config e) m"

text \<open>
  A trace without a program that could not be started; a trace that ends with the first
  such program, with the exception raised for it; and the computations that go from the
  first kind to the first kind, or raise in a world whose trace is of one of the two kinds.
\<close>

fun is_exec_failed :: "event \<Rightarrow> bool" where
  "is_exec_failed (ExecFailed prog args) = True"
| "is_exec_failed ev = False"

definition no_exec_failed :: "event list \<Rightarrow> bool" where
  "no_exec_failed tr = list_all (\<lambda>ev. \<not> is_exec_failed ev) tr"

definition stopped :: "error \<Rightarrow> event list \<Rightarrow> bool" where
  "stopped e tr =
     (\<exists>pre prog args failure. tr = pre @ [ExecFailed prog args] \<and> no_exec_failed pre
        \<and> e = start_error failure prog)"

definition stops :: "'a io \<Rightarrow> bool" where
  "stops m =
     safe (\<lambda>w. no_exec_failed (trace w))
          (\<lambda>e w. no_exec_failed (trace w) \<or> stopped e (trace w)) m"

text \<open>The events of \<^verbatim>\<open>subprocess.run\<close>.\<close>

fun is_process_event :: "event \<Rightarrow> bool" where
  "is_process_event (Run prog args status) = True"
| "is_process_event (ExecFailed prog args) = True"
| "is_process_event (RunShell cmd status) = True"
| "is_process_event ev = False"

text \<open>
  Worlds that differ at most in the exit statuses recorded in the trace; the environment
  in which every program exits with status 0 after doing the same to the files; and two
  computations that, from worlds alike, give the same result in worlds alike.
\<close>

fun erase_status :: "event \<Rightarrow> event" where
  "erase_status (Run prog args status) = Run prog args 0"
| "erase_status (RunShell cmd status) = RunShell cmd 0"
| "erase_status ev = ev"

definition alike :: "world \<Rightarrow> world \<Rightarrow> bool" where
  "alike w1 w2 =
     (files w1 = files w2 \<and> map erase_status (trace w1) = map erase_status (trace w2))"

definition with_status_zero :: "environment \<Rightarrow> environment" where
  "with_status_zero env =
     \<lparr>exec = (\<lambda>prog args fs. map_sum id (\<lambda>(status, fs'). (0, fs')) (exec env prog args fs)),
      shell = (\<lambda>cmd fs. (0, snd (shell env cmd fs)))\<rparr>"

definition sim :: "'a io \<Rightarrow> 'a io \<Rightarrow> bool" where
  "sim m n =
     (\<forall>w1 w2. alike w1 w2 \<longrightarrow> fst (m w1) = fst (n w2) \<and> alike (snd (m w1)) (snd (n w2)))"

section \<open>Properties of the overlap-adjustment pass\<close>

subsection \<open>One step and the pass on intervals\<close>

lemma adjust_step_Some:
  "adjust_step cur iv = (cur', Some ov) \<Longrightarrow>
     ov = iv\<lparr>i_start := clip_start (reset_cursor cur (i_chrom iv)) (i_start iv)\<rparr>
     \<and> i_start ov < i_end iv
     \<and> cur' = \<lparr>current_chrom = Some (i_chrom iv), current_end = i_end iv\<rparr>"
  by (auto simp: adjust_step_def Let_def reset_cursor_def split: if_splits)

lemma adjust_step_None:
  "adjust_step cur iv = (cur', None) \<Longrightarrow>
     cur' = reset_cursor cur (i_chrom iv)
     \<and> i_end iv \<le> clip_start cur' (i_start iv)"
  by (auto simp: adjust_step_def Let_def split: if_splits)

lemma adjust_step_chrom:
  "current_chrom (fst (adjust_step cur iv)) = Some (i_chrom iv)"
  by (auto simp: adjust_step_def Let_def reset_cursor_def)

lemma clip_start_ge: "start \<le> clip_start cur start"
  by (simp add: clip_start_def)

lemma clip_start_ge_end: "current_end cur \<le> clip_start cur start"
  by (simp add: clip_start_def)

lemma adjust_step_moved:
  "adjust_step cur iv = (cur', Some ov) \<Longrightarrow> moved_forward iv ov"
  by (auto simp: moved_forward_def clip_start_ge dest!: adjust_step_Some)

lemma adjust_step_end_mono:
  "current_chrom cur = Some (i_chrom iv) \<Longrightarrow>
     current_end cur \<le> current_end (fst (adjust_step cur iv))"
  by (auto simp: adjust_step_def Let_def reset_cursor_def clip_start_def)

lemma emit_subseq:
  "\<exists>sel. subseq sel ivs \<and> list_all2 moved_forward sel (emit cur ivs)"
proof (induction ivs arbitrary: cur)
  case Nil
  show ?case by simp
next
  case (Cons iv ivs)
  obtain cur' r where st: "adjust_step cur iv = (cur', r)" by (cases "adjust_step cur iv")
  from Cons.IH [of cur'] obtain sel where
    sel: "subseq sel ivs" "list_all2 moved_forward sel (emit cur' ivs)" by blast
  show ?case
  proof (cases r)
    case None
    with st sel show ?thesis by (auto intro!: exI [of _ sel])
  next
    case (Some ov)
    with st have "moved_forward iv ov" by (simp add: adjust_step_moved)
    with st sel Some show ?thesis by (auto intro!: exI [of _ "iv # sel"])
  qed
qed

lemma emit_member:
  "ov \<in> set (emit cur ivs) \<Longrightarrow> \<exists>iv\<in>set ivs. moved_forward iv ov"
proof (induction ivs arbitrary: cur)
  case Nil
  then show ?case by simp
next
  case (Cons iv ivs)
  obtain cur' r where st: "adjust_step cur iv = (cur', r)" by (cases "adjust_step cur iv")
  show ?case
  proof (cases r)
    case None
    with st Cons show ?thesis by auto
  next
    case (Some o1)
    with st have "moved_forward iv o1" by (simp add: adjust_step_moved)
    with st Some Cons show ?thesis by auto
  qed
qed

lemma emit_well_formed:
  "list_all well_formed (emit cur ivs)"
proof (induction ivs arbitrary: cur)
  case Nil
  show ?case by simp
next
  case (Cons iv ivs)
  obtain cur' r where st: "adjust_step cur iv = (cur', r)" by (cases "adjust_step cur iv")
  show ?case
  proof (cases r)
    case None
    with st Cons show ?thesis by simp
  next
    case (Some ov)
    with st have "well_formed ov" by (auto simp: well_formed_def dest!: adjust_step_Some)
    with st Some Cons show ?thesis by simp
  qed
qed

text \<open>On sorted input, what is emitted for the cursor's chromosome starts at or after the cursor.\<close>

lemma emit_after_cursor:
  assumes "sorted_by_chrom_start ivs"
    and "\<forall>iv\<in>set ivs. c \<le> i_chrom iv"
    and "current_chrom cur = Some c"
    and "ov \<in> set (emit cur ivs)"
    and "i_chrom ov = c"
  shows "current_end cur \<le> i_start ov"
  using assms
proof (induction ivs arbitrary: cur)
  case Nil
  then show ?case by simp
next
  case (Cons iv ivs)
  obtain cur' r where st: "adjust_step cur iv = (cur', r)" by (cases "adjust_step cur iv")
  have sorted: "sorted_by_chrom_start ivs"
    using Cons.prems(1) by (simp add: sorted_by_chrom_start_def)
  have ge: "\<forall>x\<in>set ivs. i_chrom iv \<le> i_chrom x"
    using Cons.prems(1) by (auto simp: sorted_by_chrom_start_def chrom_start_le_def)
  show ?case
  proof (cases "i_chrom iv = c")
    case True
    have cur': "current_chrom cur' = Some c"
      using adjust_step_chrom [of cur iv] st True by simp
    have mono: "current_end cur \<le> current_end cur'"
      using adjust_step_end_mono [of cur iv] st True Cons.prems(3) by simp
    have rest: "ov \<in> set (emit cur' ivs) \<Longrightarrow> current_end cur' \<le> i_start ov"
      using Cons.IH [of cur'] sorted ge True cur' Cons.prems(5) by simp
    show ?thesis
    proof (cases r)
      case None
      with st Cons.prems(4) rest mono show ?thesis by auto
    next
      case (Some o1)
      have "current_end cur \<le> i_start o1"
        using st Some True Cons.prems(3)
        by (auto simp: reset_cursor_def clip_start_def dest!: adjust_step_Some)
      with st Some Cons.prems(4) rest mono show ?thesis by auto
    qed
  next
    case False
    then have lt: "c < i_chrom iv" using Cons.prems(2) by auto
    have "ov \<in> set (emit cur (iv # ivs))" by (rule Cons.prems(4))
    then obtain x where x: "x \<in> set (iv # ivs)" "moved_forward x ov"
      using emit_member by blast
    then have "i_chrom x = c" using Cons.prems(5) by (simp add: moved_forward_def)
    with x(1) lt ge have False by auto
    then show ?thesis ..
  qed
qed

lemma emit_repaired:
  "sorted_by_chrom_start ivs \<Longrightarrow> sorted_wrt precedes (emit cur ivs)"
proof (induction ivs arbitrary: cur)
  case Nil
  show ?case by simp
next
  case (Cons iv ivs)
  obtain cur' r where st: "adjust_step cur iv = (cur', r)" by (cases "adjust_step cur iv")
  have sorted: "sorted_by_chrom_start ivs"
    using Cons.prems by (simp add: sorted_by_chrom_start_def)
  have ge: "\<forall>x\<in>set ivs. i_chrom iv \<le> i_chrom x"
    using Cons.prems by (auto simp: sorted_by_chrom_start_def chrom_start_le_def)
  have IH: "sorted_wrt precedes (emit cur' ivs)" using Cons.IH sorted by simp
  show ?case
  proof (cases r)
    case None
    with st IH show ?thesis by simp
  next
    case (Some o1)
    from st Some have o1: "i_chrom o1 = i_chrom iv" "i_start o1 < i_end iv" "i_end o1 = i_end iv"
      and cur': "cur' = \<lparr>current_chrom = Some (i_chrom iv), current_end = i_end iv\<rparr>"
      by (auto dest!: adjust_step_Some)
    have "precedes o1 ov" if "ov \<in> set (emit cur' ivs)" for ov
    proof -
      have "i_chrom ov = i_chrom iv \<Longrightarrow> current_end cur' \<le> i_start ov"
        using emit_after_cursor [OF sorted ge _ that] cur' by simp
      then show ?thesis using o1 cur' by (auto simp: precedes_def)
    qed
    with st Some IH show ?thesis by simp
  qed
qed

lemma emit_nonneg:
  "0 \<le> current_end cur \<Longrightarrow> ov \<in> set (emit cur ivs) \<Longrightarrow> 0 \<le> i_start ov"
proof (induction ivs arbitrary: cur)
  case Nil
  then show ?case by simp
next
  case (Cons iv ivs)
  obtain cur' r where st: "adjust_step cur iv = (cur', r)" by (cases "adjust_step cur iv")
  have c1: "0 \<le> current_end (reset_cursor cur (i_chrom iv))"
    using Cons.prems(1) by (simp add: reset_cursor_def)
  show ?case
  proof (cases r)
    case None
    with st have "cur' = reset_cursor cur (i_chrom iv)" by (auto dest!: adjust_step_None)
    with c1 st None Cons show ?thesis by auto
  next
    case (Some o1)
    from st Some have o1: "i_start o1 = clip_start (reset_cursor cur (i_chrom iv)) (i_start iv)"
      and lt: "i_start o1 < i_end iv"
      and cur': "cur' = \<lparr>current_chrom = Some (i_chrom iv), current_end = i_end iv\<rparr>"
      by (auto dest!: adjust_step_Some)
    have "0 \<le> i_start o1"
      using c1 clip_start_ge_end [of "reset_cursor cur (i_chrom iv)" "i_start iv"] o1 by simp
    moreover from this lt cur' have "0 \<le> current_end cur'" by simp
    ultimately show ?thesis using st Some Cons by auto
  qed
qed

lemma emit_fixpoint:
  assumes "sorted_wrt precedes ovs"
    and "list_all well_formed ovs"
    and "\<forall>ov\<in>set ovs. 0 \<le> i_start ov"
    and "\<forall>ov\<in>set ovs. current_chrom cur = Some (i_chrom ov) \<longrightarrow> current_end cur \<le> i_start ov"
  shows "emit cur ovs = ovs"
  using assms
proof (induction ovs arbitrary: cur)
  case Nil
  show ?case by simp
next
  case (Cons ov ovs)
  let ?cur' = "\<lparr>current_chrom = Some (i_chrom ov), current_end = i_end ov\<rparr>"
  have "clip_start (reset_cursor cur (i_chrom ov)) (i_start ov) = i_start ov"
    using Cons.prems(3,4) by (auto simp: clip_start_def reset_cursor_def)
  moreover have "i_start ov < i_end ov" using Cons.prems(2) by (simp add: well_formed_def)
  ultimately have st: "adjust_step cur ov = (?cur', Some ov)"
    by (auto simp: adjust_step_def Let_def reset_cursor_def)
  have "emit ?cur' ovs = ovs"
  proof (rule Cons.IH)
    show "sorted_wrt precedes ovs" using Cons.prems(1) by simp
    show "list_all well_formed ovs" using Cons.prems(2) by simp
    show "\<forall>ov\<in>set ovs. 0 \<le> i_start ov" using Cons.prems(3) by simp
    show "\<forall>x\<in>set ovs. current_chrom ?cur' = Some (i_chrom x) \<longrightarrow> current_end ?cur' \<le> i_start x"
      using Cons.prems(1) by (auto simp: precedes_def)
  qed
  with st show ?case by simp
qed

lemma emit_idem:
  assumes "sorted_by_chrom_start ivs"
  shows "emit init_cursor (emit init_cursor ivs) = emit init_cursor ivs"
proof (rule emit_fixpoint)
  show "sorted_wrt precedes (emit init_cursor ivs)" using assms by (rule emit_repaired)
  show "list_all well_formed (emit init_cursor ivs)" by (rule emit_well_formed)
  show "\<forall>ov\<in>set (emit init_cursor ivs). 0 \<le> i_start ov"
    using emit_nonneg [of init_cursor] by (simp add: init_cursor_def)
  show "\<forall>ov\<in>set (emit init_cursor ivs).
          current_chrom init_cursor = Some (i_chrom ov) \<longrightarrow> current_end init_cursor \<le> i_start ov"
    by (simp add: init_cursor_def)
qed

subsection \<open>Parsing and printing\<close>

lemma is_digit_digit_char: "d < 10 \<Longrightarrow> is_digit (digit_char d)"
  by (simp add: is_digit_def digit_char_def)

lemma digit_val_digit_char: "d < 10 \<Longrightarrow> digit_val (digit_char d) = d"
  by (simp add: digit_val_def digit_char_def)

lemma is_digit_not_space: "is_digit c \<Longrightarrow> \<not> is_space c"
  by (simp add: is_digit_def is_space_def Let_def)

lemma minus_not_space: "\<not> is_space (CHR ''-'')"
  by (simp add: is_space_def)

lemma is_space_TAB: "is_space TAB"
  by (simp add: is_space_def TAB_def)

lemma is_space_NL: "is_space NL"
  by (simp add: is_space_def NL_def)

lemma is_space_CR: "is_space CR"
  by (simp add: is_space_def CR_def)

lemma show_nat_digits: "list_all is_digit (show_nat n)"
proof (induction n rule: show_nat.induct)
  case (1 n)
  show ?case
  proof (cases "n < 10")
    case True
    then show ?thesis by (simp add: show_nat.simps [of n] is_digit_digit_char)
  next
    case False
    with "1" show ?thesis by (simp add: show_nat.simps [of n] is_digit_digit_char)
  qed
qed

lemma show_nat_nonempty: "show_nat n \<noteq> []"
  by (simp add: show_nat.simps [of n])

lemma parse_digits_snoc:
  "parse_digits acc prev ds = Some m \<Longrightarrow> is_digit c \<Longrightarrow>
     parse_digits acc prev (ds @ [c]) = Some (10 * m + digit_val c)"
  by (induction ds arbitrary: acc prev) (auto split: if_splits)

lemma parse_digits_show_nat: "parse_digits 0 False (show_nat n) = Some n"
proof (induction n rule: show_nat.induct)
  case (1 n)
  show ?case
  proof (cases "n < 10")
    case True
    then show ?thesis
      by (simp add: show_nat.simps [of n] is_digit_digit_char digit_val_digit_char)
  next
    case False
    with "1" have "parse_digits 0 False (show_nat (n div 10)) = Some (n div 10)" by simp
    then have "parse_digits 0 False (show_nat (n div 10) @ [digit_char (n mod 10)])
        = Some (10 * (n div 10) + digit_val (digit_char (n mod 10)))"
      by (rule parse_digits_snoc) (simp add: is_digit_digit_char)
    with False show ?thesis by (simp add: show_nat.simps [of n] digit_val_digit_char)
  qed
qed

lemma show_int_token: "is_token (show_int i)"
proof -
  have "list_all (\<lambda>c. \<not> is_space c) (show_nat n)" for n
    using show_nat_digits [of n] by (auto simp: list_all_iff is_digit_not_space)
  then show ?thesis
    by (simp add: is_token_def show_int_def show_nat_nonempty minus_not_space)
qed

lemma py_strip_token: "is_token t \<Longrightarrow> py_strip t = t"
proof -
  assume t: "is_token t"
  then obtain x xs where x: "t = x # xs" "\<not> is_space x"
    by (cases t) (auto simp: is_token_def)
  from t obtain ys y where y: "t = ys @ [y]" "\<not> is_space y"
    by (cases t rule: rev_cases) (auto simp: is_token_def)
  have "dropWhile is_space t = t" using x by simp
  moreover have "dropWhile is_space (rev t) = rev t" using y by simp
  ultimately show ?thesis by (simp add: py_strip_def)
qed

lemma show_nat_first_digit: "\<exists>c cs. show_nat n = c # cs \<and> is_digit c"
  using show_nat_digits [of n] show_nat_nonempty [of n] by (cases "show_nat n") auto

lemma py_int_show_int: "py_int (show_int i) = Some i"
proof -
  have strip: "py_strip (show_int i) = show_int i"
    by (rule py_strip_token) (rule show_int_token)
  show ?thesis
  proof (cases "i < 0")
    case True
    then show ?thesis
      by (simp add: py_int_def strip parse_signed_def)
         (simp add: show_int_def parse_digits_show_nat)
  next
    case False
    obtain c cs where c: "show_nat (nat i) = c # cs" "is_digit c"
      using show_nat_first_digit by blast
    then have "c \<noteq> CHR ''-''" "c \<noteq> CHR ''+''" by (auto simp: is_digit_def)
    moreover have "parse_digits 0 False (c # cs) = Some (nat i)"
      using parse_digits_show_nat [of "nat i"] c by simp
    ultimately have "parse_signed (c # cs) = Some (int (nat i))"
      by (simp add: parse_signed_def)
    with False c show ?thesis by (simp add: py_int_def strip) (simp add: show_int_def)
  qed
qed

lemma split_from_nonspace:
  "list_all (\<lambda>c. \<not> is_space c) t \<Longrightarrow> split_from tok (t @ rest) = split_from (tok @ t) rest"
  by (induction t arbitrary: tok) auto

lemma split_from_token_space:
  "is_token t \<Longrightarrow> is_space c \<Longrightarrow> split_from [] (t @ c # rest) = t # split_from [] rest"
  by (simp add: is_token_def split_from_nonspace)

lemma split_from_token_end:
  "is_token t \<Longrightarrow> split_from [] t = [t]"
  using split_from_nonspace [of t "[]" "[]"] by (simp add: is_token_def)

lemma split_from_tokens:
  "list_all (\<lambda>c. \<not> is_space c) tok \<Longrightarrow> list_all is_token (split_from tok s)"
  by (induction s arbitrary: tok) (auto simp: is_token_def)

lemma py_split_tokens: "list_all is_token (py_split s)"
  by (simp add: py_split_def split_from_tokens)

lemma py_split_fields:
  assumes "is_token a" "is_token b" "is_token c" "is_token d"
  shows "py_split (a @ [TAB] @ b @ [TAB] @ c @ [TAB] @ d) = [a, b, c, d]"
  using assms by (simp add: py_split_def split_from_token_space split_from_token_end is_space_TAB)

lemma py_strip_line:
  assumes "is_token a" "is_token d"
  shows "py_strip (a @ mid @ d @ [NL]) = a @ mid @ d"
proof -
  from assms(1) obtain x xs where x: "a = x # xs" "\<not> is_space x"
    by (cases a) (auto simp: is_token_def)
  from assms(2) obtain ys y where y: "d = ys @ [y]" "\<not> is_space y"
    by (cases d rule: rev_cases) (auto simp: is_token_def)
  have "dropWhile is_space (a @ mid @ d @ [NL]) = a @ mid @ d @ [NL]" using x by simp
  moreover have "dropWhile is_space (rev (a @ mid @ d @ [NL])) = rev (a @ mid @ d)"
    using y by (simp add: is_space_NL)
  ultimately show ?thesis by (simp add: py_strip_def)
qed

lemma parse_line_write_line:
  assumes "tokens_ok iv"
  shows "parse_line (write_line iv) = Inr iv"
proof -
  let ?mid = "[TAB] @ show_int (i_start iv) @ [TAB] @ show_int (i_end iv) @ [TAB]"
  have tok: "is_token (i_chrom iv)" "is_token (i_value iv)"
    using assms by (simp_all add: tokens_ok_def)
  have "py_strip (i_chrom iv @ ?mid @ i_value iv @ [NL]) = i_chrom iv @ ?mid @ i_value iv"
    using tok by (rule py_strip_line)
  then have "py_split (py_strip (write_line iv))
      = py_split (i_chrom iv @ [TAB] @ show_int (i_start iv) @ [TAB] @ show_int (i_end iv) @ [TAB] @ i_value iv)"
    by (simp add: write_line_def)
  also have "\<dots> = [i_chrom iv, show_int (i_start iv), show_int (i_end iv), i_value iv]"
    using tok(1) show_int_token show_int_token tok(2) by (rule py_split_fields)
  finally show ?thesis by (simp add: parse_line_def py_int_show_int)
qed

lemma parse_line_tokens: "parse_line l = Inr iv \<Longrightarrow> tokens_ok iv"
proof -
  assume p: "parse_line l = Inr iv"
  have all: "list_all is_token (py_split (py_strip l))" by (rule py_split_tokens)
  from p obtain a b c d where toks: "py_split (py_strip l) = [a, b, c, d]"
    and iv: "i_chrom iv = a" "i_value iv = d"
    by (auto simp: parse_line_def split: list.splits option.splits)
  from all toks iv show ?thesis by (simp add: tokens_ok_def)
qed

lemma moved_forward_tokens: "moved_forward iv ov \<Longrightarrow> tokens_ok iv \<Longrightarrow> tokens_ok ov"
  by (simp add: moved_forward_def tokens_ok_def)

lemma emit_tokens:
  "list_all tokens_ok ivs \<Longrightarrow> list_all tokens_ok (emit cur ivs)"
  using emit_member [of _ cur ivs] by (auto simp: list_all_iff dest: moved_forward_tokens)

lemma parse_lines_tokens: "parse_lines ls = Inr ivs \<Longrightarrow> list_all tokens_ok ivs"
  by (induction ls arbitrary: ivs) (auto split: sum.splits dest: parse_line_tokens)

subsection \<open>Lines of a text\<close>

lemma lines_from_line:
  "no_newline body \<Longrightarrow> lines_from cur (body @ NL # rest) = (cur @ body @ [NL]) # lines_from [] rest"
proof (induction body arbitrary: cur)
  case Nil
  show ?case by (cases rest) simp_all
next
  case (Cons b body)
  then have b: "b \<noteq> NL" "b \<noteq> CR" and body: "no_newline body" by (simp_all add: no_newline_def)
  obtain d ds where d: "body @ NL # rest = d # ds" by (cases body) auto
  have "lines_from cur (b # d # ds) = lines_from (cur @ [b]) (d # ds)" using b by simp
  with d Cons.IH [OF body, of "cur @ [b]"] show ?case by simp
qed

lemma token_no_newline: "is_token t \<Longrightarrow> no_newline t"
  by (auto simp: is_token_def no_newline_def list_all_iff is_space_NL is_space_CR)

lemma TAB_not_newline: "TAB \<noteq> NL" "TAB \<noteq> CR"
  by (simp_all add: TAB_def NL_def CR_def)

lemma write_line_body:
  "tokens_ok iv \<Longrightarrow> \<exists>body. no_newline body \<and> write_line iv = body @ [NL]"
proof -
  assume "tokens_ok iv"
  then have "no_newline (i_chrom iv)" "no_newline (i_value iv)"
    by (simp_all add: tokens_ok_def token_no_newline)
  moreover have "no_newline (show_int i)" for i
    by (rule token_no_newline) (rule show_int_token)
  ultimately have "no_newline (i_chrom iv @ [TAB] @ show_int (i_start iv) @ [TAB]
      @ show_int (i_end iv) @ [TAB] @ i_value iv)"
    by (simp add: no_newline_def TAB_not_newline)
  then show ?thesis by (intro exI conjI, assumption) (simp add: write_line_def)
qed

lemma py_lines_written:
  "list_all tokens_ok ovs \<Longrightarrow> py_lines (concat (map write_line ovs)) = map write_line ovs"
proof (induction ovs)
  case Nil
  show ?case by (simp add: py_lines_def)
next
  case (Cons ov ovs)
  then obtain body where body: "no_newline body" "write_line ov = body @ [NL]"
    using write_line_body [of ov] by auto
  have "lines_from [] (body @ NL # concat (map write_line ovs))
      = (body @ [NL]) # lines_from [] (concat (map write_line ovs))"
    using lines_from_line [OF body(1), of "[]"] by simp
  with Cons body show ?case by (simp add: py_lines_def)
qed

lemma parse_lines_written:
  "list_all tokens_ok ovs \<Longrightarrow> parse_lines (map write_line ovs) = Inr ovs"
  by (induction ovs) (simp_all add: parse_line_write_line)

lemma read_intervals_written:
  "list_all tokens_ok ovs \<Longrightarrow> read_intervals (concat (map write_line ovs)) = Inr ovs"
  by (simp add: read_intervals_def py_lines_written parse_lines_written)

subsection \<open>The loop on lines and the pass on intervals\<close>

lemma for_lines_emit:
  "parse_lines ls = Inr ivs \<Longrightarrow>
     fst (for_lines (cur, out) ls) = None
     \<and> snd (snd (for_lines (cur, out) ls)) = out @ concat (map write_line (emit cur ivs))"
proof (induction ls arbitrary: cur out ivs)
  case Nil
  then show ?case by simp
next
  case (Cons l ls)
  from Cons.prems obtain iv ivs' where l: "parse_line l = Inr iv"
    and ls: "parse_lines ls = Inr ivs'" and ivs: "ivs = iv # ivs'"
    by (auto split: sum.splits)
  obtain cur' r where st: "adjust_step cur iv = (cur', r)" by (cases "adjust_step cur iv")
  show ?case
  proof (cases r)
    case None
    with l st Cons.IH [OF ls, of cur' out] ivs show ?thesis by (simp add: loop_body_def)
  next
    case (Some ov)
    with l st Cons.IH [OF ls, of cur' "out @ write_line ov"] ivs show ?thesis
      by (simp add: loop_body_def)
  qed
qed

lemma adjust_overlaps_emit:
  "read_intervals text = Inr ivs \<Longrightarrow>
     adjust_overlaps text = (None, concat (map write_line (emit init_cursor ivs)))"
  using for_lines_emit [of "py_lines text" ivs init_cursor "[]"]
  by (auto simp: adjust_overlaps_def read_intervals_def split: prod.splits)

lemma read_intervals_tokens: "read_intervals text = Inr ivs \<Longrightarrow> list_all tokens_ok ivs"
  by (simp add: read_intervals_def parse_lines_tokens)

lemma read_intervals_output:
  "read_intervals text = Inr ivs \<Longrightarrow>
     read_intervals (snd (adjust_overlaps text)) = Inr (emit init_cursor ivs)"
  by (simp add: adjust_overlaps_emit read_intervals_written emit_tokens read_intervals_tokens)

lemma for_lines_append:
  "for_lines st pre = (None, st') \<Longrightarrow> for_lines st (pre @ ls) = for_lines st' ls"
  by (induction pre arbitrary: st) (auto split: sum.splits)

lemma malformed_parse_line:
  "malformed l \<Longrightarrow> \<exists>e. is_ValueError e \<and> parse_line l = Inl e"
  by (auto simp: malformed_def parse_line_def split: list.splits option.splits)

lemma parse_line_malformed:
  "parse_line l = Inl e \<Longrightarrow> malformed l"
  by (auto simp: malformed_def parse_line_def split: list.splits option.splits)

subsection \<open>The contract of the pass\<close>

text \<open>
  Claim C1. When the input text parses into well-formed intervals sorted ascending by
  (chromosome, start), \<open>adjust_overlaps\<close> raises nothing, and the intervals of its output
  are, within each chromosome, strictly increasing and non-overlapping as half-open ranges
  \<open>[start, end)\<close>, each with \<open>start < end\<close>.
\<close>

theorem adjust_overlaps_repaired:
  assumes "read_intervals text = Inr ivs"
    and "sorted_by_chrom_start ivs"
    and "list_all well_formed ivs"
  shows "fst (adjust_overlaps text) = None
    \<and> read_intervals (snd (adjust_overlaps text)) = Inr (emit init_cursor ivs)
    \<and> repaired (emit init_cursor ivs)"
proof -
  have "repaired (emit init_cursor ivs)"
    using assms(2) by (simp add: repaired_def emit_repaired emit_well_formed)
  moreover have "fst (adjust_overlaps text) = None"
    using assms(1) by (simp add: adjust_overlaps_emit)
  moreover have "read_intervals (snd (adjust_overlaps text)) = Inr (emit init_cursor ivs)"
    using assms(1) by (rule read_intervals_output)
  ultimately show ?thesis by simp
qed

theorem adjust_overlaps_repaired_witness:
  "fst (adjust_overlaps (''chr1'' @ [TAB] @ ''100'' @ [TAB] @ ''200'' @ [TAB] @ ''5.0'' @ [NL]
       @ ''chr1'' @ [TAB] @ ''150'' @ [TAB] @ ''250'' @ [TAB] @ ''3.0'' @ [NL]
       @ ''chr2'' @ [TAB] @ ''50'' @ [TAB] @ ''150'' @ [TAB] @ ''9.0'' @ [NL])) = None
   \<and> repaired (emit init_cursor
       [\<lparr>i_chrom = ''chr1'', i_start = 100, i_end = 200, i_value = ''5.0''\<rparr>,
        \<lparr>i_chrom = ''chr1'', i_start = 150, i_end = 250, i_value = ''3.0''\<rparr>,
        \<lparr>i_chrom = ''chr2'', i_start = 50, i_end = 150, i_value = ''9.0''\<rparr>])"
proof -
  let ?text = "''chr1'' @ [TAB] @ ''100'' @ [TAB] @ ''200'' @ [TAB] @ ''5.0'' @ [NL]
       @ ''chr1'' @ [TAB] @ ''150'' @ [TAB] @ ''250'' @ [TAB] @ ''3.0'' @ [NL]
       @ ''chr2'' @ [TAB] @ ''50'' @ [TAB] @ ''150'' @ [TAB] @ ''9.0'' @ [NL]"
  let ?ivs = "[\<lparr>i_chrom = ''chr1'', i_start = 100, i_end = 200, i_value = ''5.0''\<rparr>,
        \<lparr>i_chrom = ''chr1'', i_start = 150, i_end = 250, i_value = ''3.0''\<rparr>,
        \<lparr>i_chrom = ''chr2'', i_start = 50, i_end = 150, i_value = ''9.0''\<rparr>]"
  have 1: "read_intervals ?text = Inr ?ivs" by code_simp
  have 2: "sorted_by_chrom_start ?ivs" by code_simp
  have 3: "list_all well_formed ?ivs" by code_simp
  from adjust_overlaps_repaired [OF 1 2 3] show ?thesis by simp
qed

text \<open>
  Claim C2. With the cursor taken after the chromosome check: an interval that starts
  before \<open>current_end\<close> and ends after it is emitted with its start moved to
  \<open>current_end\<close>; one that starts exactly at \<open>current_end\<close> is emitted unchanged; the
  start of an emitted interval is rewritten exactly when \<open>start < current_end\<close>. On the
  three lines of scenario 1 the second start is clipped from 150 to 200.
\<close>

theorem start_clipped_exactly_when_overlap:
  "(let c1 = reset_cursor cur (i_chrom iv); ce = current_end c1 in
      (i_start iv < ce \<and> ce < i_end iv \<longrightarrow>
         adjust_step cur iv = (c1\<lparr>current_end := i_end iv\<rparr>, Some (iv\<lparr>i_start := ce\<rparr>)))
    \<and> (i_start iv = ce \<and> i_start iv < i_end iv \<longrightarrow>
         adjust_step cur iv = (c1\<lparr>current_end := i_end iv\<rparr>, Some iv))
    \<and> (\<forall>cur' ov. adjust_step cur iv = (cur', Some ov) \<longrightarrow>
         i_start ov = (if i_start iv < ce then ce else i_start iv)))
   \<and> adjust_overlaps
        (''chr1'' @ [TAB] @ ''100'' @ [TAB] @ ''200'' @ [TAB] @ ''5.0'' @ [NL]
         @ ''chr1'' @ [TAB] @ ''150'' @ [TAB] @ ''250'' @ [TAB] @ ''3.0'' @ [NL]
         @ ''chr1'' @ [TAB] @ ''260'' @ [TAB] @ ''300'' @ [TAB] @ ''1.0'' @ [NL])
      = (None,
         ''chr1'' @ [TAB] @ ''100'' @ [TAB] @ ''200'' @ [TAB] @ ''5.0'' @ [NL]
         @ ''chr1'' @ [TAB] @ ''200'' @ [TAB] @ ''250'' @ [TAB] @ ''3.0'' @ [NL]
         @ ''chr1'' @ [TAB] @ ''260'' @ [TAB] @ ''300'' @ [TAB] @ ''1.0'' @ [NL])"
proof (intro conjI)
  show "let c1 = reset_cursor cur (i_chrom iv); ce = current_end c1 in
      (i_start iv < ce \<and> ce < i_end iv \<longrightarrow>
         adjust_step cur iv = (c1\<lparr>current_end := i_end iv\<rparr>, Some (iv\<lparr>i_start := ce\<rparr>)))
    \<and> (i_start iv = ce \<and> i_start iv < i_end iv \<longrightarrow>
         adjust_step cur iv = (c1\<lparr>current_end := i_end iv\<rparr>, Some iv))
    \<and> (\<forall>cur' ov. adjust_step cur iv = (cur', Some ov) \<longrightarrow>
         i_start ov = (if i_start iv < ce then ce else i_start iv))"
    by (auto simp: Let_def adjust_step_def clip_start_def)
next
  show "adjust_overlaps
        (''chr1'' @ [TAB] @ ''100'' @ [TAB] @ ''200'' @ [TAB] @ ''5.0'' @ [NL]
         @ ''chr1'' @ [TAB] @ ''150'' @ [TAB] @ ''250'' @ [TAB] @ ''3.0'' @ [NL]
         @ ''chr1'' @ [TAB] @ ''260'' @ [TAB] @ ''300'' @ [TAB] @ ''1.0'' @ [NL])
      = (None,
         ''chr1'' @ [TAB] @ ''100'' @ [TAB] @ ''200'' @ [TAB] @ ''5.0'' @ [NL]
         @ ''chr1'' @ [TAB] @ ''200'' @ [TAB] @ ''250'' @ [TAB] @ ''3.0'' @ [NL]
         @ ''chr1'' @ [TAB] @ ''260'' @ [TAB] @ ''300'' @ [TAB] @ ''1.0'' @ [NL])"
    by code_simp
qed

theorem start_clipped_exactly_when_overlap_witness:
  "adjust_step \<lparr>current_chrom = Some ''chr1'', current_end = 200\<rparr>
     \<lparr>i_chrom = ''chr1'', i_start = 150, i_end = 250, i_value = ''3.0''\<rparr>
   = (\<lparr>current_chrom = Some ''chr1'', current_end = 250\<rparr>,
      Some \<lparr>i_chrom = ''chr1'', i_start = 200, i_end = 250, i_value = ''3.0''\<rparr>)
   \<and> adjust_step \<lparr>current_chrom = Some ''chr1'', current_end = 200\<rparr>
     \<lparr>i_chrom = ''chr1'', i_start = 200, i_end = 250, i_value = ''3.0''\<rparr>
   = (\<lparr>current_chrom = Some ''chr1'', current_end = 250\<rparr>,
      Some \<lparr>i_chrom = ''chr1'', i_start = 200, i_end = 250, i_value = ''3.0''\<rparr>)"
  using start_clipped_exactly_when_overlap
          [of "\<lparr>current_chrom = Some ''chr1'', current_end = 200\<rparr>"
              "\<lparr>i_chrom = ''chr1'', i_start = 150, i_end = 250, i_value = ''3.0''\<rparr>"]
        start_clipped_exactly_when_overlap
          [of "\<lparr>current_chrom = Some ''chr1'', current_end = 200\<rparr>"
              "\<lparr>i_chrom = ''chr1'', i_start = 200, i_end = 250, i_value = ''3.0''\<rparr>"]
  by (simp add: Let_def reset_cursor_def)

text \<open>
  Claim C3. An interval whose start after adjustment is not less than its end is dropped:
  nothing is written for it and the cursor stays where the chromosome check left it. For
  a well-formed interval this is the case exactly when \<open>end \<le> current_end\<close>. The cursor
  moves to \<open>end\<close> only when the interval is emitted. On the two lines of scenario 2 only
  the first line is written.
\<close>

theorem degenerate_interval_dropped:
  "(let c1 = reset_cursor cur (i_chrom iv) in
      (i_end iv \<le> clip_start c1 (i_start iv) \<longrightarrow> adjust_step cur iv = (c1, None))
    \<and> (well_formed iv \<longrightarrow>
         (i_end iv \<le> clip_start c1 (i_start iv)) = (i_end iv \<le> current_end c1))
    \<and> (\<forall>cur' r. adjust_step cur iv = (cur', r) \<longrightarrow>
         (r = None \<longrightarrow> cur' = c1) \<and> (r \<noteq> None \<longrightarrow> cur' = c1\<lparr>current_end := i_end iv\<rparr>))
    \<and> (parse_line line = Inr iv \<and> i_end iv \<le> clip_start c1 (i_start iv) \<longrightarrow>
         loop_body (cur, out) line = Inr (c1, out)))
   \<and> adjust_overlaps
        (''chr1'' @ [TAB] @ ''100'' @ [TAB] @ ''200'' @ [TAB] @ ''5.0'' @ [NL]
         @ ''chr1'' @ [TAB] @ ''120'' @ [TAB] @ ''180'' @ [TAB] @ ''2.0'' @ [NL])
      = (None, ''chr1'' @ [TAB] @ ''100'' @ [TAB] @ ''200'' @ [TAB] @ ''5.0'' @ [NL])"
proof (intro conjI)
  show "let c1 = reset_cursor cur (i_chrom iv) in
      (i_end iv \<le> clip_start c1 (i_start iv) \<longrightarrow> adjust_step cur iv = (c1, None))
    \<and> (well_formed iv \<longrightarrow>
         (i_end iv \<le> clip_start c1 (i_start iv)) = (i_end iv \<le> current_end c1))
    \<and> (\<forall>cur' r. adjust_step cur iv = (cur', r) \<longrightarrow>
         (r = None \<longrightarrow> cur' = c1) \<and> (r \<noteq> None \<longrightarrow> cur' = c1\<lparr>current_end := i_end iv\<rparr>))
    \<and> (parse_line line = Inr iv \<and> i_end iv \<le> clip_start c1 (i_start iv) \<longrightarrow>
         loop_body (cur, out) line = Inr (c1, out))"
    by (auto simp: Let_def adjust_step_def clip_start_def well_formed_def loop_body_def
        split: if_splits)
next
  show "adjust_overlaps
        (''chr1'' @ [TAB] @ ''100'' @ [TAB] @ ''200'' @ [TAB] @ ''5.0'' @ [NL]
         @ ''chr1'' @ [TAB] @ ''120'' @ [TAB] @ ''180'' @ [TAB] @ ''2.0'' @ [NL])
      = (None, ''chr1'' @ [TAB] @ ''100'' @ [TAB] @ ''200'' @ [TAB] @ ''5.0'' @ [NL])"
    by code_simp
qed

theorem degenerate_interval_dropped_witness:
  "adjust_step \<lparr>current_chrom = Some ''chr1'', current_end = 200\<rparr>
     \<lparr>i_chrom = ''chr1'', i_start = 120, i_end = 180, i_value = ''2.0''\<rparr>
   = (\<lparr>current_chrom = Some ''chr1'', current_end = 200\<rparr>, None)"
  using degenerate_interval_dropped
          [of "\<lparr>current_chrom = Some ''chr1'', current_end = 200\<rparr>"
              "\<lparr>i_chrom = ''chr1'', i_start = 120, i_end = 180, i_value = ''2.0''\<rparr>"]
  by (simp add: Let_def reset_cursor_def clip_start_def well_formed_def)

text \<open>
  Claim C4. When the chromosome of the incoming interval differs from the cursor's, the
  cursor is reset to that chromosome with \<open>current_end = 0\<close>: the step then does what it
  does at the start of the pass, whatever the end coordinate reached on the previous
  chromosome, and a well-formed interval with a non-negative start is emitted unchanged.
  On the two lines of scenario 3 both lines are written unchanged.
\<close>

theorem chromosome_change_resets_cursor:
  "(current_chrom cur \<noteq> Some (i_chrom iv) \<longrightarrow>
      reset_cursor cur (i_chrom iv) = \<lparr>current_chrom = Some (i_chrom iv), current_end = 0\<rparr>
      \<and> adjust_step cur iv = adjust_step init_cursor iv
      \<and> (0 \<le> i_start iv \<and> i_start iv < i_end iv \<longrightarrow>
           adjust_step cur iv
             = (\<lparr>current_chrom = Some (i_chrom iv), current_end = i_end iv\<rparr>, Some iv)))
   \<and> adjust_overlaps
        (''chr1'' @ [TAB] @ ''100'' @ [TAB] @ ''200'' @ [TAB] @ ''5.0'' @ [NL]
         @ ''chr2'' @ [TAB] @ ''50'' @ [TAB] @ ''150'' @ [TAB] @ ''9.0'' @ [NL])
      = (None,
         ''chr1'' @ [TAB] @ ''100'' @ [TAB] @ ''200'' @ [TAB] @ ''5.0'' @ [NL]
         @ ''chr2'' @ [TAB] @ ''50'' @ [TAB] @ ''150'' @ [TAB] @ ''9.0'' @ [NL])"
proof (intro conjI)
  show "current_chrom cur \<noteq> Some (i_chrom iv) \<longrightarrow>
      reset_cursor cur (i_chrom iv) = \<lparr>current_chrom = Some (i_chrom iv), current_end = 0\<rparr>
      \<and> adjust_step cur iv = adjust_step init_cursor iv
      \<and> (0 \<le> i_start iv \<and> i_start iv < i_end iv \<longrightarrow>
           adjust_step cur iv
             = (\<lparr>current_chrom = Some (i_chrom iv), current_end = i_end iv\<rparr>, Some iv))"
    by (auto simp: Let_def adjust_step_def clip_start_def reset_cursor_def init_cursor_def)
next
  show "adjust_overlaps
        (''chr1'' @ [TAB] @ ''100'' @ [TAB] @ ''200'' @ [TAB] @ ''5.0'' @ [NL]
         @ ''chr2'' @ [TAB] @ ''50'' @ [TAB] @ ''150'' @ [TAB] @ ''9.0'' @ [NL])
      = (None,
         ''chr1'' @ [TAB] @ ''100'' @ [TAB] @ ''200'' @ [TAB] @ ''5.0'' @ [NL]
         @ ''chr2'' @ [TAB] @ ''50'' @ [TAB] @ ''150'' @ [TAB] @ ''9.0'' @ [NL])"
    by code_simp
qed

theorem chromosome_change_resets_cursor_witness:
  "adjust_step \<lparr>current_chrom = Some ''chr1'', current_end = 200\<rparr>
     \<lparr>i_chrom = ''chr2'', i_start = 50, i_end = 150, i_value = ''9.0''\<rparr>
   = (\<lparr>current_chrom = Some ''chr2'', current_end = 150\<rparr>,
      Some \<lparr>i_chrom = ''chr2'', i_start = 50, i_end = 150, i_value = ''9.0''\<rparr>)"
  using chromosome_change_resets_cursor
          [of "\<lparr>current_chrom = Some ''chr1'', current_end = 200\<rparr>"
              "\<lparr>i_chrom = ''chr2'', i_start = 50, i_end = 150, i_value = ''9.0''\<rparr>"]
  by (simp add: init_cursor_def adjust_step_def Let_def reset_cursor_def clip_start_def)

text \<open>
  Claim C5. The intervals written are, in order, images of some of the input intervals
  (a subsequence: no interval yields two), each with the chromosome, end and value of its
  input interval and with a start that is not smaller.
\<close>

theorem only_start_moves_forward:
  assumes "read_intervals text = Inr ivs"
  shows "adjust_overlaps text = (None, concat (map write_line (emit init_cursor ivs)))
    \<and> read_intervals (snd (adjust_overlaps text)) = Inr (emit init_cursor ivs)
    \<and> (\<exists>sel. subseq sel ivs \<and> list_all2 moved_forward sel (emit init_cursor ivs))"
proof (intro conjI)
  show "adjust_overlaps text = (None, concat (map write_line (emit init_cursor ivs)))"
    using assms by (rule adjust_overlaps_emit)
  show "read_intervals (snd (adjust_overlaps text)) = Inr (emit init_cursor ivs)"
    using assms by (rule read_intervals_output)
  show "\<exists>sel. subseq sel ivs \<and> list_all2 moved_forward sel (emit init_cursor ivs)"
    by (rule emit_subseq)
qed

theorem only_start_moves_forward_witness:
  "\<exists>sel. subseq sel
       [\<lparr>i_chrom = ''chr1'', i_start = 100, i_end = 200, i_value = ''5.0''\<rparr>,
        \<lparr>i_chrom = ''chr1'', i_start = 120, i_end = 180, i_value = ''2.0''\<rparr>,
        \<lparr>i_chrom = ''chr1'', i_start = 150, i_end = 250, i_value = ''3.0''\<rparr>]
     \<and> list_all2 moved_forward sel
       [\<lparr>i_chrom = ''chr1'', i_start = 100, i_end = 200, i_value = ''5.0''\<rparr>,
        \<lparr>i_chrom = ''chr1'', i_start = 200, i_end = 250, i_value = ''3.0''\<rparr>]"
proof -
  let ?text = "''chr1'' @ [TAB] @ ''100'' @ [TAB] @ ''200'' @ [TAB] @ ''5.0'' @ [NL]
       @ ''chr1'' @ [TAB] @ ''120'' @ [TAB] @ ''180'' @ [TAB] @ ''2.0'' @ [NL]
       @ ''chr1'' @ [TAB] @ ''150'' @ [TAB] @ ''250'' @ [TAB] @ ''3.0'' @ [NL]"
  let ?ivs = "[\<lparr>i_chrom = ''chr1'', i_start = 100, i_end = 200, i_value = ''5.0''\<rparr>,
        \<lparr>i_chrom = ''chr1'', i_start = 120, i_end = 180, i_value = ''2.0''\<rparr>,
        \<lparr>i_chrom = ''chr1'', i_start = 150, i_end = 250, i_value = ''3.0''\<rparr>]"
  have 1: "read_intervals ?text = Inr ?ivs" by code_simp
  have 2: "emit init_cursor ?ivs =
       [\<lparr>i_chrom = ''chr1'', i_start = 100, i_end = 200, i_value = ''5.0''\<rparr>,
        \<lparr>i_chrom = ''chr1'', i_start = 200, i_end = 250, i_value = ''3.0''\<rparr>]" by code_simp
  from only_start_moves_forward [OF 1] show ?thesis unfolding 2 by blast
qed

text \<open>
  Claim C6. On an input sorted ascending by (chromosome, start), running
  \<open>adjust_overlaps\<close> on its own output gives that output again: the second pass emits
  every interval unchanged. So does any pass over intervals that are ordered and
  non-overlapping within each chromosome and start at 0 or later, as the outputs of a pass
  always do.
\<close>

theorem adjust_overlaps_idempotent:
  assumes "read_intervals text = Inr ivs"
    and "sorted_by_chrom_start ivs"
  shows "adjust_overlaps (snd (adjust_overlaps text)) = adjust_overlaps text
    \<and> emit init_cursor (emit init_cursor ivs) = emit init_cursor ivs
    \<and> (repaired ovs \<and> list_all (\<lambda>ov. 0 \<le> i_start ov) ovs \<longrightarrow> emit init_cursor ovs = ovs)"
proof -
  have unchanged: "emit init_cursor ovs = ovs"
    if "repaired ovs" and "list_all (\<lambda>ov. 0 \<le> i_start ov) ovs"
  proof (rule emit_fixpoint)
    show "sorted_wrt precedes ovs" and "list_all well_formed ovs"
      using that(1) by (simp_all add: repaired_def)
    show "\<forall>ov\<in>set ovs. 0 \<le> i_start ov" using that(2) by (simp add: list_all_iff)
    show "\<forall>ov\<in>set ovs. current_chrom init_cursor = Some (i_chrom ov)
        \<longrightarrow> current_end init_cursor \<le> i_start ov"
      by (simp add: init_cursor_def)
  qed
  have out: "adjust_overlaps text = (None, concat (map write_line (emit init_cursor ivs)))"
    using assms(1) by (rule adjust_overlaps_emit)
  have "read_intervals (snd (adjust_overlaps text)) = Inr (emit init_cursor ivs)"
    using assms(1) by (rule read_intervals_output)
  then have "adjust_overlaps (snd (adjust_overlaps text))
      = (None, concat (map write_line (emit init_cursor (emit init_cursor ivs))))"
    by (rule adjust_overlaps_emit)
  with out emit_idem [OF assms(2)] unchanged show ?thesis by simp
qed

theorem adjust_overlaps_idempotent_witness:
  "adjust_overlaps (snd (adjust_overlaps
      (''chr1'' @ [TAB] @ ''100'' @ [TAB] @ ''200'' @ [TAB] @ ''5.0'' @ [NL]
       @ ''chr1'' @ [TAB] @ ''150'' @ [TAB] @ ''250'' @ [TAB] @ ''3.0'' @ [NL]
       @ ''chr2'' @ [TAB] @ ''50'' @ [TAB] @ ''150'' @ [TAB] @ ''9.0'' @ [NL])))
   = adjust_overlaps
      (''chr1'' @ [TAB] @ ''100'' @ [TAB] @ ''200'' @ [TAB] @ ''5.0'' @ [NL]
       @ ''chr1'' @ [TAB] @ ''150'' @ [TAB] @ ''250'' @ [TAB] @ ''3.0'' @ [NL]
       @ ''chr2'' @ [TAB] @ ''50'' @ [TAB] @ ''150'' @ [TAB] @ ''9.0'' @ [NL])"
proof -
  let ?text = "''chr1'' @ [TAB] @ ''100'' @ [TAB] @ ''200'' @ [TAB] @ ''5.0'' @ [NL]
       @ ''chr1'' @ [TAB] @ ''150'' @ [TAB] @ ''250'' @ [TAB] @ ''3.0'' @ [NL]
       @ ''chr2'' @ [TAB] @ ''50'' @ [TAB] @ ''150'' @ [TAB] @ ''9.0'' @ [NL]"
  let ?ivs = "[\<lparr>i_chrom = ''chr1'', i_start = 100, i_end = 200, i_value = ''5.0''\<rparr>,
        \<lparr>i_chrom = ''chr1'', i_start = 150, i_end = 250, i_value = ''3.0''\<rparr>,
        \<lparr>i_chrom = ''chr2'', i_start = 50, i_end = 150, i_value = ''9.0''\<rparr>]"
  have 1: "read_intervals ?text = Inr ?ivs" by code_simp
  have 2: "sorted_by_chrom_start ?ivs" by code_simp
  from adjust_overlaps_idempotent [OF 1 2] show ?thesis by simp
qed

text \<open>
  Claim C9. When a line of the input does not hold exactly four fields, or its start or
  end field is no integer literal, \<open>adjust_overlaps\<close> raises a \<^verbatim>\<open>ValueError\<close> at that
  line: the output holds what was written for the lines before it, nothing for the line
  itself and nothing for the lines after it.
\<close>

theorem malformed_line_raises:
  assumes "py_lines text = before @ line # after"
    and "parse_lines before = Inr ivs"
    and "malformed line"
  shows "\<exists>e. is_ValueError e \<and> parse_line line = Inl e
    \<and> adjust_overlaps text = (Some e, concat (map write_line (emit init_cursor ivs)))"
proof -
  from assms(3) obtain e where e: "is_ValueError e" "parse_line line = Inl e"
    using malformed_parse_line by blast
  obtain r cur out where b: "for_lines (init_cursor, []) before = (r, (cur, out))"
    by (cases "for_lines (init_cursor, []) before") auto
  with for_lines_emit [OF assms(2), of init_cursor "[]"]
  have r: "r = None" and out: "out = concat (map write_line (emit init_cursor ivs))" by simp_all
  have "for_lines (init_cursor, []) (before @ line # after) = for_lines (cur, out) (line # after)"
    using b r by (simp add: for_lines_append)
  also have "\<dots> = (Some e, (cur, out))" using e(2) by (simp add: loop_body_def)
  finally have "adjust_overlaps text = (Some e, out)"
    using assms(1) by (simp add: adjust_overlaps_def)
  with e out show ?thesis by blast
qed

theorem malformed_line_raises_witness:
  "\<exists>e. is_ValueError e
     \<and> adjust_overlaps
        (''chr1'' @ [TAB] @ ''100'' @ [TAB] @ ''200'' @ [TAB] @ ''5.0'' @ [NL]
         @ ''chr1'' @ [TAB] @ ''150'' @ [TAB] @ ''2e2'' @ [TAB] @ ''3.0'' @ [NL]
         @ ''chr1'' @ [TAB] @ ''260'' @ [TAB] @ ''300'' @ [TAB] @ ''1.0'' @ [NL])
      = (Some e, ''chr1'' @ [TAB] @ ''100'' @ [TAB] @ ''200'' @ [TAB] @ ''5.0'' @ [NL])"
proof -
  let ?l1 = "''chr1'' @ [TAB] @ ''100'' @ [TAB] @ ''200'' @ [TAB] @ ''5.0'' @ [NL]"
  let ?l2 = "''chr1'' @ [TAB] @ ''150'' @ [TAB] @ ''2e2'' @ [TAB] @ ''3.0'' @ [NL]"
  let ?l3 = "''chr1'' @ [TAB] @ ''260'' @ [TAB] @ ''300'' @ [TAB] @ ''1.0'' @ [NL]"
  let ?ivs = "[\<lparr>i_chrom = ''chr1'', i_start = 100, i_end = 200, i_value = ''5.0''\<rparr>]"
  have 1: "py_lines (?l1 @ ?l2 @ ?l3) = [?l1] @ ?l2 # [?l3]" by code_simp
  have 2: "parse_lines [?l1] = Inr ?ivs" by code_simp
  have 3: "malformed ?l2" by code_simp
  have 4: "concat (map write_line (emit init_cursor ?ivs)) = ?l1" by code_simp
  from malformed_line_raises [OF 1 2 3] obtain e where e: "is_ValueError e"
    and r: "adjust_overlaps (?l1 @ ?l2 @ ?l3)
      = (Some e, concat (map write_line (emit init_cursor ?ivs)))"
    by blast
  from r have "adjust_overlaps (?l1 @ ?l2 @ ?l3) = (Some e, ?l1)" unfolding 4 .
  with e show ?thesis by (intro exI [of _ e]) simp
qed

text \<open>
  Claim C10. What the loop body writes for a line ends with the fourth token of that line,
  character for character, between the last tab and the newline; start and end are
  written as the decimal forms of the parsed integers.
\<close>

theorem value_written_verbatim:
  assumes "py_split (py_strip line) = [chrom, start, end', value']"
    and "loop_body (cur, out) line = Inr (cur', out')"
  shows "out' = out
    \<or> (\<exists>s e. py_int end' = Some e
          \<and> out' = out @ chrom @ [TAB] @ show_int s @ [TAB] @ show_int e @ [TAB] @ value' @ [NL])"
  using assms
  by (auto simp: loop_body_def parse_line_def adjust_step_def Let_def write_line_def
      split: option.splits if_splits)

theorem value_written_verbatim_witness:
  "loop_body (init_cursor, []) (''chr1 0100 +200 5.00e+0'' @ [NL])
     = Inr (\<lparr>current_chrom = Some ''chr1'', current_end = 200\<rparr>,
            ''chr1'' @ [TAB] @ ''100'' @ [TAB] @ ''200'' @ [TAB] @ ''5.00e+0'' @ [NL])
   \<and> (''chr1'' @ [TAB] @ ''100'' @ [TAB] @ ''200'' @ [TAB] @ ''5.00e+0'' @ [NL] = []
      \<or> (\<exists>s e. py_int ''+200'' = Some e
          \<and> ''chr1'' @ [TAB] @ ''100'' @ [TAB] @ ''200'' @ [TAB] @ ''5.00e+0'' @ [NL]
            = [] @ ''chr1'' @ [TAB] @ show_int s @ [TAB] @ show_int e @ [TAB] @ ''5.00e+0'' @ [NL]))"
proof -
  let ?line = "''chr1 0100 +200 5.00e+0'' @ [NL]"
  let ?out = "''chr1'' @ [TAB] @ ''100'' @ [TAB] @ ''200'' @ [TAB] @ ''5.00e+0'' @ [NL]"
  have 1: "py_split (py_strip ?line) = [''chr1'', ''0100'', ''+200'', ''5.00e+0'']" by code_simp
  have 2: "loop_body (init_cursor, []) ?line
     = Inr (\<lparr>current_chrom = Some ''chr1'', current_end = 200\<rparr>, ?out)" by code_simp
  note 3 = value_written_verbatim [OF 1 2]
  from 2 3 show ?thesis by (rule conjI)
qed

section \<open>Properties of the pipeline driver\<close>

subsection \<open>Composing computations\<close>

lemma safeI:
  "(\<And>w. I w \<Longrightarrow> (case m w of (Inl e, w') \<Rightarrow> E e w' | (Inr x, w') \<Rightarrow> I w')) \<Longrightarrow> safe I E m"
  by (simp add: safe_def)

lemma safe_return: "safe I E (io_return x)"
  by (simp add: safe_def io_return_def)

lemma safe_bind:
  assumes "safe I E m" and "\<And>x. safe I E (f x)"
  shows "safe I E (io_bind m f)"
proof (rule safeI)
  fix w
  assume w: "I w"
  obtain r w' where m: "m w = (r, w')" by (cases "m w")
  show "case io_bind m f w of (Inl e, w') \<Rightarrow> E e w' | (Inr x, w') \<Rightarrow> I w'"
  proof (cases r)
    case (Inl e)
    with assms(1) w m show ?thesis by (auto simp: safe_def io_bind_def)
  next
    case (Inr x)
    with assms(1) w m have "I w'" by (auto simp: safe_def)
    with assms(2) [of x] have "case f x w' of (Inl e, w'') \<Rightarrow> E e w'' | (Inr y, w'') \<Rightarrow> I w''"
      by (simp add: safe_def)
    with m Inr show ?thesis by (simp add: io_bind_def)
  qed
qed

lemma safe_seq: "safe I E m \<Longrightarrow> safe I E n \<Longrightarrow> safe I E (io_seq m n)"
  by (simp add: io_seq_def safe_bind)

lemma safe_for_each: "(\<And>x. safe I E (body x)) \<Longrightarrow> safe I E (for_each xs body)"
  by (induction xs) (simp_all add: safe_return safe_seq)

lemma safe_if: "safe I E m \<Longrightarrow> safe I E n \<Longrightarrow> safe I E (if b then m else n)"
  by simp

lemma safe_case_prod: "(\<And>a b. safe I E (f a b)) \<Longrightarrow> safe I E (case p of (a, b) \<Rightarrow> f a b)"
  by (cases p) simp

subsection \<open>No configuration error after the checks\<close>

lemma no_config_raise: "\<not> is_config e \<Longrightarrow> no_config (io_raise e)"
  by (simp add: no_config_def safe_def io_raise_def)

lemma no_config_log: "no_config (log ev)"
  by (simp add: no_config_def safe_def log_def)

lemma no_config_fun:
  "(\<And>w e w'. m w = (Inl e, w') \<Longrightarrow> \<not> is_config e) \<Longrightarrow> no_config m"
  by (auto simp: no_config_def safe_def split: prod.splits sum.splits)

lemma no_config_seq: "no_config m \<Longrightarrow> no_config n \<Longrightarrow> no_config (io_seq m n)"
  unfolding no_config_def by (rule safe_seq)

lemma no_config_bind: "no_config m \<Longrightarrow> (\<And>x. no_config (f x)) \<Longrightarrow> no_config (io_bind m f)"
  unfolding no_config_def by (rule safe_bind)

lemma no_config_return: "no_config (io_return x)"
  unfolding no_config_def by (rule safe_return)

lemma no_config_for_each: "(\<And>x. no_config (body x)) \<Longrightarrow> no_config (for_each xs body)"
  unfolding no_config_def by (rule safe_for_each)

lemma no_config_path_exists: "no_config (path_exists p)"
  unfolding path_exists_def
  by (intro no_config_seq no_config_log no_config_fun) simp

lemma no_config_chmod: "no_config (chmod p)"
  unfolding chmod_def
  by (intro no_config_seq no_config_log no_config_fun) (auto split: if_splits)

lemma no_config_remove: "no_config (remove p)"
  unfolding remove_def
  by (intro no_config_seq no_config_log no_config_fun) (auto split: if_splits)

lemma no_config_open_read: "no_config (open_read p)"
  unfolding open_read_def
  by (intro no_config_seq no_config_log no_config_fun) (auto split: if_splits)

lemma no_config_open_write: "no_config (open_write p)"
  unfolding open_write_def
  by (intro no_config_seq no_config_log no_config_fun) simp

lemma no_config_read_text: "no_config (read_text p)"
  by (rule no_config_fun) (simp add: read_text_def)

lemma no_config_write_text: "no_config (write_text p t)"
  by (rule no_config_fun) (simp add: write_text_def)

lemma no_config_subprocess_run: "no_config (subprocess_run env prog args)"
proof (rule no_config_fun)
  fix w e w'
  assume "subprocess_run env prog args w = (Inl e, w')"
  then obtain failure where "e = start_error failure prog"
    by (auto simp: subprocess_run_def split: sum.splits)
  then show "\<not> is_config e" by (cases failure) simp_all
qed

lemma no_config_subprocess_run_shell: "no_config (subprocess_run_shell env cmd)"
  by (rule no_config_fun) (auto simp: subprocess_run_shell_def split: prod.splits)

lemma no_config_reraise: "(\<And>e. r = Some e \<Longrightarrow> \<not> is_config e) \<Longrightarrow> no_config (reraise r)"
  by (cases r) (simp_all add: reraise_def no_config_return no_config_raise)

lemma parse_line_not_config: "parse_line l = Inl e \<Longrightarrow> \<not> is_config e"
  by (auto simp: parse_line_def split: list.splits option.splits)

lemma for_lines_not_config: "for_lines st ls = (Some e, st') \<Longrightarrow> \<not> is_config e"
proof (induction ls arbitrary: st)
  case Nil
  then show ?case by simp
next
  case (Cons l ls)
  then show ?case
    by (auto simp: loop_body_def split: sum.splits prod.splits option.splits
        dest: parse_line_not_config)
qed

lemma adjust_overlaps_not_config: "adjust_overlaps text = (Some e, out) \<Longrightarrow> \<not> is_config e"
  by (auto simp: adjust_overlaps_def split: prod.splits dest: for_lines_not_config)

lemma filter_lines_not_config:
  "filter_lines tc out ls = (Some e, out') \<Longrightarrow> \<not> is_config e"
  by (induction ls arbitrary: out) (auto split: list.splits)

lemma collect_chroms_not_config: "collect_chroms tc ls = Inl e \<Longrightarrow> \<not> is_config e"
  by (induction ls arbitrary: tc) (auto split: list.splits)

lemma no_config_adjust_overlaps_files: "no_config (adjust_overlaps_files i out)"
proof -
  have "no_config (case adjust_overlaps content of
      (r, out') \<Rightarrow> io_seq (write_text out out') (reraise r))" for content
    by (cases "adjust_overlaps content")
       (auto intro!: no_config_seq no_config_write_text no_config_reraise
          dest: adjust_overlaps_not_config)
  then show ?thesis
    unfolding adjust_overlaps_files_def
    by (intro no_config_seq no_config_bind no_config_open_read no_config_open_write
        no_config_read_text)
qed

lemma no_config_filter_chromosomes: "no_config (filter_chromosomes tc)"
proof -
  have "no_config (case filter_lines tc [] (py_lines content) of
      (r, out') \<Rightarrow> io_seq (write_text ''filtered_output.bedGraph'' out') (reraise r))" for content
    by (cases "filter_lines tc [] (py_lines content)")
       (auto intro!: no_config_seq no_config_write_text no_config_reraise
          dest: filter_lines_not_config)
  then show ?thesis
    unfolding filter_chromosomes_def
    by (intro no_config_seq no_config_bind no_config_open_read no_config_open_write
        no_config_read_text)
qed

lemma no_config_load_target_chroms: "no_config (load_target_chroms f)"
proof -
  have "no_config (case collect_chroms {} (py_lines content) of
      Inl e \<Rightarrow> io_raise e | Inr tc \<Rightarrow> io_return tc)" for content
    by (cases "collect_chroms {} (py_lines content)")
       (auto intro!: no_config_raise no_config_return dest: collect_chroms_not_config)
  then show ?thesis
    unfolding load_target_chroms_def
    by (intro no_config_seq no_config_bind no_config_open_read no_config_read_text)
qed

lemma no_config_download_resources: "no_config (download_resources env)"
  unfolding download_resources_def
  by (intro no_config_seq no_config_for_each no_config_chmod)
     (auto intro!: no_config_bind no_config_path_exists no_config_subprocess_run no_config_return)

lemma no_config_clean_up: "no_config clean_up"
  unfolding clean_up_def
  by (intro no_config_for_each)
     (auto intro!: no_config_bind no_config_path_exists no_config_remove no_config_return)

lemma no_config_pipeline: "no_config (pipeline env i out s t c)"
  unfolding pipeline_def Let_def print_progress_def
  by (intro no_config_seq no_config_bind no_config_log no_config_download_resources
      no_config_subprocess_run no_config_subprocess_run_shell no_config_load_target_chroms
      no_config_filter_chromosomes no_config_adjust_overlaps_files)
     (simp_all add: no_config_clean_up no_config_return)

lemma pipeline_not_config: "fst (pipeline env i out s t c w) \<noteq> Inl (ConfigValueError m)"
proof
  assume a: "fst (pipeline env i out s t c w) = Inl (ConfigValueError m)"
  then obtain w' where "pipeline env i out s t c w = (Inl (ConfigValueError m), w')"
    by (cases "pipeline env i out s t c w") auto
  moreover have "case pipeline env i out s t c w of
      (Inl e, w') \<Rightarrow> \<not> is_config e | (Inr x, w') \<Rightarrow> True"
    using no_config_pipeline [of env i out s t c] by (simp add: no_config_def safe_def)
  ultimately show False by simp
qed

subsection \<open>Nothing happens after a program that cannot be started\<close>

lemma stops_fun: "(\<And>w r w'. m w = (r, w') \<Longrightarrow> trace w' = trace w) \<Longrightarrow> stops m"
  by (auto simp: stops_def safe_def split: prod.splits sum.splits)

lemma stops_log: "\<not> is_exec_failed ev \<Longrightarrow> stops (log ev)"
  by (simp add: stops_def safe_def log_def no_exec_failed_def)

lemma stops_seq: "stops m \<Longrightarrow> stops n \<Longrightarrow> stops (io_seq m n)"
  unfolding stops_def by (rule safe_seq)

lemma stops_bind: "stops m \<Longrightarrow> (\<And>x. stops (f x)) \<Longrightarrow> stops (io_bind m f)"
  unfolding stops_def by (rule safe_bind)

lemma stops_return: "stops (io_return x)"
  unfolding stops_def by (rule safe_return)

lemma stops_raise: "stops (io_raise e)"
  by (rule stops_fun) (simp add: io_raise_def)

lemma stops_for_each: "(\<And>x. stops (body x)) \<Longrightarrow> stops (for_each xs body)"
  unfolding stops_def by (rule safe_for_each)

lemma stops_reraise: "stops (reraise r)"
  by (cases r) (simp_all add: reraise_def stops_return stops_raise)

lemma stops_path_exists: "stops (path_exists p)"
  unfolding path_exists_def by (intro stops_seq stops_log stops_fun) auto

lemma stops_chmod: "stops (chmod p)"
  unfolding chmod_def by (intro stops_seq stops_log stops_fun) (auto split: if_splits)

lemma stops_remove: "stops (remove p)"
  unfolding remove_def by (intro stops_seq stops_log stops_fun) (auto split: if_splits)

lemma stops_open_read: "stops (open_read p)"
  unfolding open_read_def by (intro stops_seq stops_log stops_fun) (auto split: if_splits)

lemma stops_open_write: "stops (open_write p)"
  unfolding open_write_def by (intro stops_seq stops_log stops_fun) auto

lemma stops_read_text: "stops (read_text p)"
  by (rule stops_fun) (auto simp: read_text_def)

lemma stops_write_text: "stops (write_text p t)"
  by (rule stops_fun) (auto simp: write_text_def)

lemma stops_subprocess_run: "stops (subprocess_run env prog args)"
  unfolding stops_def
proof (rule safeI)
  fix w :: world
  assume clean: "no_exec_failed (trace w)"
  show "case subprocess_run env prog args w of
      (Inl e, w') \<Rightarrow> no_exec_failed (trace w') \<or> stopped e (trace w')
    | (Inr x, w') \<Rightarrow> no_exec_failed (trace w')"
  proof (cases "exec env prog args (files w)")
    case (Inl failure)
    have "stopped (start_error failure prog) (trace w @ [ExecFailed prog args])"
      unfolding stopped_def using clean by blast
    with Inl show ?thesis by (simp add: subprocess_run_def)
  next
    case (Inr r)
    with clean show ?thesis
      by (cases r) (simp add: subprocess_run_def no_exec_failed_def)
  qed
qed

lemma stops_subprocess_run_shell: "stops (subprocess_run_shell env cmd)"
  by (auto simp: stops_def safe_def subprocess_run_shell_def no_exec_failed_def
      split: prod.splits)

lemma stops_adjust_overlaps_files: "stops (adjust_overlaps_files i out)"
proof -
  have "stops (case adjust_overlaps content of
      (r, out') \<Rightarrow> io_seq (write_text out out') (reraise r))" for content
    by (cases "adjust_overlaps content") (simp add: stops_seq stops_write_text stops_reraise)
  then show ?thesis
    unfolding adjust_overlaps_files_def
    by (intro stops_seq stops_bind stops_open_read stops_open_write stops_read_text)
qed

lemma stops_filter_chromosomes: "stops (filter_chromosomes tc)"
proof -
  have "stops (case filter_lines tc [] (py_lines content) of
      (r, out') \<Rightarrow> io_seq (write_text ''filtered_output.bedGraph'' out') (reraise r))" for content
    by (cases "filter_lines tc [] (py_lines content)")
       (simp add: stops_seq stops_write_text stops_reraise)
  then show ?thesis
    unfolding filter_chromosomes_def
    by (intro stops_seq stops_bind stops_open_read stops_open_write stops_read_text)
qed

lemma stops_load_target_chroms: "stops (load_target_chroms f)"
proof -
  have "stops (case collect_chroms {} (py_lines content) of
      Inl e \<Rightarrow> io_raise e | Inr tc \<Rightarrow> io_return tc)" for content
    by (cases "collect_chroms {} (py_lines content)") (simp_all add: stops_raise stops_return)
  then show ?thesis
    unfolding load_target_chroms_def
    by (intro stops_seq stops_bind stops_open_read stops_read_text)
qed

lemma stops_download_resources: "stops (download_resources env)"
  unfolding download_resources_def
  by (intro stops_seq stops_for_each stops_chmod)
     (auto intro!: stops_bind stops_path_exists stops_subprocess_run stops_return)

lemma stops_clean_up: "stops clean_up"
  unfolding clean_up_def
  by (intro stops_for_each)
     (auto intro!: stops_bind stops_path_exists stops_remove stops_return)

lemma stops_pipeline: "stops (pipeline env i out s t c)"
  unfolding pipeline_def Let_def print_progress_def
  by (intro stops_seq stops_bind stops_log stops_download_resources
      stops_subprocess_run stops_subprocess_run_shell stops_load_target_chroms
      stops_filter_chromosomes stops_adjust_overlaps_files)
     (simp_all add: stops_clean_up stops_return)

lemma stops_convert_bigwig: "stops (convert_bigwig env i out s t c)"
  by (simp add: convert_bigwig_def stops_raise stops_pipeline)

lemma stopped_last:
  assumes "stopped e (pre @ ExecFailed prog args # post)"
  shows "post = [] \<and> (\<exists>failure. e = start_error failure prog)"
proof -
  from assms obtain pre' prog' args' failure where
    eq: "pre @ ExecFailed prog args # post = pre' @ [ExecFailed prog' args']"
    and clean: "no_exec_failed pre'" and e: "e = start_error failure prog'"
    by (auto simp: stopped_def)
  show ?thesis
  proof (cases post rule: rev_cases)
    case Nil
    with eq e show ?thesis by auto
  next
    case (snoc post' x)
    with eq have "pre' = pre @ ExecFailed prog args # post'" by simp
    with clean have False by (simp add: no_exec_failed_def)
    then show ?thesis ..
  qed
qed

lemma stops_result:
  assumes "stops m" and "no_exec_failed (trace w)"
    and "trace (snd (m w)) = pre @ ExecFailed prog args # post"
  shows "post = [] \<and> (\<exists>failure. fst (m w) = Inl (start_error failure prog))"
proof -
  obtain r w' where m: "m w = (r, w')" by (cases "m w")
  have dirty: "\<not> no_exec_failed (trace w')"
    using assms(3) m by (simp add: no_exec_failed_def)
  from assms(1,2) m have "case r of Inl e \<Rightarrow> no_exec_failed (trace w') \<or> stopped e (trace w')
      | Inr x \<Rightarrow> no_exec_failed (trace w')"
    by (auto simp: stops_def safe_def split: sum.splits)
  with dirty obtain e where r: "r = Inl e" and "stopped e (trace w')"
    by (cases r) auto
  with assms(3) m have "stopped e (pre @ ExecFailed prog args # post)" by simp
  from stopped_last [OF this] r m show ?thesis by simp
qed

subsection \<open>Exit statuses\<close>

lemma sim_return: "sim (io_return x) (io_return x)"
  by (simp add: sim_def io_return_def)

lemma sim_raise: "sim (io_raise e) (io_raise e)"
  by (simp add: sim_def io_raise_def)

lemma sim_bind:
  assumes "sim m n" and "\<And>x. sim (f x) (g x)"
  shows "sim (io_bind m f) (io_bind n g)"
  unfolding sim_def
proof (intro allI impI)
  fix w1 w2
  assume a: "alike w1 w2"
  obtain r1 v1 where m: "m w1 = (r1, v1)" by (cases "m w1")
  obtain r2 v2 where n: "n w2 = (r2, v2)" by (cases "n w2")
  from assms(1) a have "fst (m w1) = fst (n w2) \<and> alike (snd (m w1)) (snd (n w2))"
    unfolding sim_def by blast
  with m n have r: "r1 = r2" and v: "alike v1 v2" by simp_all
  show "fst (io_bind m f w1) = fst (io_bind n g w2)
      \<and> alike (snd (io_bind m f w1)) (snd (io_bind n g w2))"
  proof (cases r1)
    case (Inl e)
    with m n r v show ?thesis by (auto simp: io_bind_def)
  next
    case (Inr x)
    with assms(2) [of x] v have "fst (f x v1) = fst (g x v2) \<and> alike (snd (f x v1)) (snd (g x v2))"
      by (simp add: sim_def)
    with m n r Inr show ?thesis by (auto simp: io_bind_def)
  qed
qed

lemma sim_seq: "sim m n \<Longrightarrow> sim m' n' \<Longrightarrow> sim (io_seq m m') (io_seq n n')"
  by (simp add: io_seq_def sim_bind)

lemma sim_for_each: "(\<And>x. sim (f x) (g x)) \<Longrightarrow> sim (for_each xs f) (for_each xs g)"
  by (induction xs) (simp_all add: sim_return sim_seq)

lemma sim_log: "sim (log ev) (log ev)"
  by (simp add: sim_def log_def alike_def)

lemma sim_reraise: "sim (reraise r) (reraise r)"
  by (cases r) (simp_all add: reraise_def sim_return sim_raise)

lemma sim_path_exists: "sim (path_exists p) (path_exists p)"
  unfolding path_exists_def by (intro sim_seq sim_log) (simp add: sim_def alike_def)

lemma sim_chmod: "sim (chmod p) (chmod p)"
  unfolding chmod_def by (intro sim_seq sim_log) (simp add: sim_def alike_def)

lemma sim_remove: "sim (remove p) (remove p)"
  unfolding remove_def by (intro sim_seq sim_log) (simp add: sim_def alike_def)

lemma sim_open_read: "sim (open_read p) (open_read p)"
  unfolding open_read_def by (intro sim_seq sim_log) (simp add: sim_def alike_def)

lemma sim_open_write: "sim (open_write p) (open_write p)"
  unfolding open_write_def by (intro sim_seq sim_log) (simp add: sim_def alike_def)

lemma sim_read_text: "sim (read_text p) (read_text p)"
  by (simp add: sim_def alike_def read_text_def)

lemma sim_write_text: "sim (write_text p t) (write_text p t)"
  by (simp add: sim_def alike_def write_text_def)

lemma sim_subprocess_run:
  "sim (subprocess_run (with_status_zero env) prog args) (subprocess_run env prog args)"
  by (auto simp: sim_def alike_def subprocess_run_def with_status_zero_def
      split: sum.splits)

lemma sim_subprocess_run_shell:
  "sim (subprocess_run_shell (with_status_zero env) cmd) (subprocess_run_shell env cmd)"
  by (auto simp: sim_def alike_def subprocess_run_shell_def with_status_zero_def
      split: prod.splits)

lemma sim_adjust_overlaps_files:
  "sim (adjust_overlaps_files i out) (adjust_overlaps_files i out)"
proof -
  have "sim (case adjust_overlaps content of
      (r, out') \<Rightarrow> io_seq (write_text out out') (reraise r))
     (case adjust_overlaps content of
      (r, out') \<Rightarrow> io_seq (write_text out out') (reraise r))" for content
    by (cases "adjust_overlaps content") (simp add: sim_seq sim_write_text sim_reraise)
  then show ?thesis
    unfolding adjust_overlaps_files_def
    by (intro sim_seq sim_bind sim_open_read sim_open_write sim_read_text)
qed

lemma sim_filter_chromosomes: "sim (filter_chromosomes tc) (filter_chromosomes tc)"
proof -
  have "sim (case filter_lines tc [] (py_lines content) of
      (r, out') \<Rightarrow> io_seq (write_text ''filtered_output.bedGraph'' out') (reraise r))
     (case filter_lines tc [] (py_lines content) of
      (r, out') \<Rightarrow> io_seq (write_text ''filtered_output.bedGraph'' out') (reraise r))" for content
    by (cases "filter_lines tc [] (py_lines content)")
       (simp add: sim_seq sim_write_text sim_reraise)
  then show ?thesis
    unfolding filter_chromosomes_def
    by (intro sim_seq sim_bind sim_open_read sim_open_write sim_read_text)
qed

lemma sim_load_target_chroms: "sim (load_target_chroms f) (load_target_chroms f)"
proof -
  have "sim (case collect_chroms {} (py_lines content) of
      Inl e \<Rightarrow> io_raise e | Inr tc \<Rightarrow> io_return tc)
     (case collect_chroms {} (py_lines content) of
      Inl e \<Rightarrow> io_raise e | Inr tc \<Rightarrow> io_return tc)" for content
    by (cases "collect_chroms {} (py_lines content)") (simp_all add: sim_raise sim_return)
  then show ?thesis
    unfolding load_target_chroms_def
    by (intro sim_seq sim_bind sim_open_read sim_read_text)
qed

lemma sim_download_resources:
  "sim (download_resources (with_status_zero env)) (download_resources env)"
  unfolding download_resources_def
  by (intro sim_seq sim_for_each sim_chmod)
     (auto intro!: sim_bind sim_path_exists sim_subprocess_run sim_return)

lemma sim_clean_up: "sim clean_up clean_up"
  unfolding clean_up_def
  by (intro sim_for_each)
     (auto intro!: sim_bind sim_path_exists sim_remove sim_return)

lemma sim_pipeline:
  "sim (pipeline (with_status_zero env) i out s t c) (pipeline env i out s t c)"
  unfolding pipeline_def Let_def print_progress_def
  by (intro sim_seq sim_bind sim_log sim_download_resources
      sim_subprocess_run sim_subprocess_run_shell sim_load_target_chroms
      sim_filter_chromosomes sim_adjust_overlaps_files)
     (simp_all add: sim_clean_up sim_return)

lemma sim_convert_bigwig:
  "sim (convert_bigwig (with_status_zero env) i out s t c) (convert_bigwig env i out s t c)"
  by (simp add: convert_bigwig_def sim_raise sim_pipeline)

subsection \<open>A call that fails\<close>

lemma io_bind_Inr: "m w = (Inr x, w') \<Longrightarrow> io_bind m f w = f x w'"
  by (simp add: io_bind_def)

lemma io_bind_Inl: "m w = (Inl e, w') \<Longrightarrow> io_bind m f w = (Inl e, w')"
  by (simp add: io_bind_def)

lemma io_seq_Inr: "m w = (Inr u, w') \<Longrightarrow> io_seq m n w = n w'"
  by (simp add: io_seq_def io_bind_def)

lemma io_seq_Inl: "m w = (Inl e, w') \<Longrightarrow> io_seq m n w = (Inl e, w')"
  by (simp add: io_seq_def io_bind_def)

lemma io_bind_assoc: "io_bind (io_bind m f) g = io_bind m (\<lambda>x. io_bind (f x) g)"
  by (rule ext) (simp add: io_bind_def split: prod.splits sum.splits)

lemma io_bind_return: "io_bind (io_return x) f = f x"
  by (rule ext) (simp add: io_bind_def io_return_def)

lemma io_seq_assoc: "io_seq (io_seq m n) k = io_seq m (io_seq n k)"
  by (simp add: io_seq_def io_bind_assoc)

lemma io_seq_return: "io_seq (io_return u) n = n"
  by (simp add: io_seq_def io_bind_return)

lemma for_each_append:
  "for_each (xs @ ys) body = io_seq (for_each xs body) (for_each ys body)"
  by (induction xs) (simp_all add: io_seq_return io_seq_assoc)

lemma subprocess_run_fails:
  "exec env prog args (files w) = Inl failure \<Longrightarrow>
     subprocess_run env prog args w = raised_at w failure prog args"
  by (simp add: subprocess_run_def raised_at_def)

lemma pipeline_up_to_encode:
  "pipeline env i out s t c =
     io_seq (up_to_encode env i s t)
       (io_seq (subprocess_run env ''./bedGraphToBigWig''
                  [''adjusted_output.bedGraph'', t @ ''.chrom.sizes'', out])
          (io_seq (if c then clean_up else io_return ()) (log (Completed out))))"
  by (simp add: pipeline_def Let_def up_to_encode_def up_to_clip_def up_to_lift_def
      up_to_decode_def up_to_install_def io_seq_def io_bind_assoc io_bind_return)

lemma up_to_encode_fails:
  "up_to_encode env i s t w = (Inl e, w') \<Longrightarrow> pipeline env i out s t c w = (Inl e, w')"
  by (simp add: pipeline_up_to_encode io_seq_Inl)

lemma up_to_clip_fails:
  "up_to_clip env i s t w = (Inl e, w') \<Longrightarrow> pipeline env i out s t c w = (Inl e, w')"
  by (rule up_to_encode_fails) (simp add: up_to_encode_def io_seq_Inl)

lemma up_to_lift_fails:
  "up_to_lift env i t w = (Inl e, w') \<Longrightarrow> pipeline env i out s t c w = (Inl e, w')"
  by (rule up_to_clip_fails) (simp add: up_to_clip_def io_bind_Inl)

lemma up_to_decode_fails:
  "up_to_decode env t w = (Inl e, w') \<Longrightarrow> pipeline env i out s t c w = (Inl e, w')"
  by (rule up_to_lift_fails) (simp add: up_to_lift_def io_bind_Inl)

lemma up_to_install_fails:
  "up_to_install env w = (Inl e, w') \<Longrightarrow> pipeline env i out s t c w = (Inl e, w')"
  by (rule up_to_decode_fails) (simp add: up_to_decode_def io_seq_Inl)

lemma call_encode_fails:
  assumes "up_to_encode env i s t w = (Inr u, w')"
    and "exec env ''./bedGraphToBigWig''
           [''adjusted_output.bedGraph'', t @ ''.chrom.sizes'', out] (files w') = Inl failure"
  shows "pipeline env i out s t c w
    = raised_at w' failure ''./bedGraphToBigWig''
        [''adjusted_output.bedGraph'', t @ ''.chrom.sizes'', out]"
proof -
  have "subprocess_run env ''./bedGraphToBigWig''
      [''adjusted_output.bedGraph'', t @ ''.chrom.sizes'', out] w'
    = raised_at w' failure ''./bedGraphToBigWig''
        [''adjusted_output.bedGraph'', t @ ''.chrom.sizes'', out]"
    using assms(2) by (rule subprocess_run_fails)
  then show ?thesis
    using assms(1) by (simp add: pipeline_up_to_encode io_seq_def io_bind_def raised_at_def)
qed

lemma call_clip_fails:
  assumes "up_to_clip env i s t w = (Inr u, w')"
    and "exec env ''./bedClip''
           [''filtered_output.bedGraph'', t @ ''.chrom.sizes'', ''clipped_output.bedGraph'']
           (files w') = Inl failure"
  shows "pipeline env i out s t c w
    = raised_at w' failure ''./bedClip''
        [''filtered_output.bedGraph'', t @ ''.chrom.sizes'', ''clipped_output.bedGraph'']"
proof -
  have "subprocess_run env ''./bedClip''
      [''filtered_output.bedGraph'', t @ ''.chrom.sizes'', ''clipped_output.bedGraph''] w'
    = raised_at w' failure ''./bedClip''
        [''filtered_output.bedGraph'', t @ ''.chrom.sizes'', ''clipped_output.bedGraph'']"
    using assms(2) by (rule subprocess_run_fails)
  then have "up_to_encode env i s t w
    = raised_at w' failure ''./bedClip''
        [''filtered_output.bedGraph'', t @ ''.chrom.sizes'', ''clipped_output.bedGraph'']"
    using assms(1) by (simp add: up_to_encode_def io_seq_def io_bind_def raised_at_def)
  then show ?thesis by (simp add: raised_at_def up_to_encode_fails)
qed

lemma call_lift_fails:
  assumes "up_to_lift env i t w = (Inr tc, w')"
    and "exec env ''CrossMap''
           [''bed'', s @ ''To'' @ capitalize t @ ''.over.chain.gz'', ''input.bedGraph'',
            ''output.bedGraph''] (files w') = Inl failure"
  shows "pipeline env i out s t c w
    = raised_at w' failure ''CrossMap''
        [''bed'', s @ ''To'' @ capitalize t @ ''.over.chain.gz'', ''input.bedGraph'',
         ''output.bedGraph'']"
proof -
  have "subprocess_run env ''CrossMap''
      [''bed'', s @ ''To'' @ capitalize t @ ''.over.chain.gz'', ''input.bedGraph'',
       ''output.bedGraph''] w'
    = raised_at w' failure ''CrossMap''
        [''bed'', s @ ''To'' @ capitalize t @ ''.over.chain.gz'', ''input.bedGraph'',
         ''output.bedGraph'']"
    using assms(2) by (rule subprocess_run_fails)
  then have "up_to_clip env i s t w
    = raised_at w' failure ''CrossMap''
        [''bed'', s @ ''To'' @ capitalize t @ ''.over.chain.gz'', ''input.bedGraph'',
         ''output.bedGraph'']"
    using assms(1) by (simp add: up_to_clip_def io_seq_def io_bind_def raised_at_def)
  then show ?thesis by (simp add: raised_at_def up_to_clip_fails)
qed

lemma call_decode_fails:
  assumes "up_to_decode env t w = (Inr tc, w')"
    and "exec env ''./bigWigToBedGraph'' [i, ''input.bedGraph''] (files w') = Inl failure"
  shows "pipeline env i out s t c w
    = raised_at w' failure ''./bigWigToBedGraph'' [i, ''input.bedGraph'']"
proof -
  have "subprocess_run env ''./bigWigToBedGraph'' [i, ''input.bedGraph''] w'
    = raised_at w' failure ''./bigWigToBedGraph'' [i, ''input.bedGraph'']"
    using assms(2) by (rule subprocess_run_fails)
  then have "up_to_lift env i t w
    = raised_at w' failure ''./bigWigToBedGraph'' [i, ''input.bedGraph'']"
    using assms(1) by (simp add: up_to_lift_def io_seq_def io_bind_def raised_at_def)
  then show ?thesis by (simp add: raised_at_def up_to_lift_fails)
qed

lemma call_install_fails:
  assumes "up_to_install env w = (Inr u, w')"
    and "exec env ''pip'' [''install'', ''CrossMap''] (files w') = Inl failure"
  shows "pipeline env i out s t c w
    = raised_at w' failure ''pip'' [''install'', ''CrossMap'']"
proof -
  have "subprocess_run env ''pip'' [''install'', ''CrossMap''] w'
    = raised_at w' failure ''pip'' [''install'', ''CrossMap'']"
    using assms(2) by (rule subprocess_run_fails)
  then have "up_to_decode env t w = raised_at w' failure ''pip'' [''install'', ''CrossMap'']"
    using assms(1) by (simp add: up_to_decode_def io_seq_def io_bind_def raised_at_def)
  then show ?thesis by (simp add: raised_at_def up_to_decode_fails)
qed

lemma up_to_install_fetch:
  "resources = fetched @ (url, filename) # rest \<Longrightarrow>
     up_to_install env =
       io_seq (up_to_fetch env fetched)
         (io_seq (io_bind (path_exists filename) (\<lambda>found.
                    if \<not> found then subprocess_run env ''wget'' [url] else io_return ()))
            (io_seq (for_each rest (\<lambda>(url, filename).
                       io_bind (path_exists filename) (\<lambda>found.
                         if \<not> found then subprocess_run env ''wget'' [url] else io_return ())))
               (io_seq (for_each [''bigWigToBedGraph'', ''bedGraphToBigWig'', ''bedClip''] chmod)
                  (print_progress 3 9 ''Installing CrossMap...''))))"
proof -
  assume split: "resources = fetched @ (url, filename) # rest"
  show ?thesis
    unfolding up_to_install_def download_resources_def split
    by (simp add: up_to_fetch_def for_each_append io_seq_assoc)
qed

lemma path_exists_missing:
  "files w p = None \<Longrightarrow> path_exists p w = (Inr False, w\<lparr>trace := trace w @ [Exists p]\<rparr>)"
  by (simp add: path_exists_def io_seq_def io_bind_def log_def)

lemma call_fetch_fails:
  assumes "resources = fetched @ (url, filename) # rest"
    and "up_to_fetch env fetched w = (Inr u, w')"
    and "files w' filename = None"
    and "exec env ''wget'' [url] (files w') = Inl failure"
  shows "pipeline env i out s t c w
    = raised_at (w'\<lparr>trace := trace w' @ [Exists filename]\<rparr>) failure ''wget'' [url]"
proof -
  let ?w = "w'\<lparr>trace := trace w' @ [Exists filename]\<rparr>"
  have "subprocess_run env ''wget'' [url] ?w = raised_at ?w failure ''wget'' [url]"
    by (rule subprocess_run_fails) (simp add: assms(4))
  then have body: "io_bind (path_exists filename) (\<lambda>found.
      if \<not> found then subprocess_run env ''wget'' [url] else io_return ()) w'
    = (Inl (start_error failure ''wget''), ?w\<lparr>trace := trace ?w @ [ExecFailed ''wget'' [url]]\<rparr>)"
    using path_exists_missing [OF assms(3)] by (simp add: io_bind_def raised_at_def)
  note step1 = io_seq_Inr [where m = "up_to_fetch env fetched" and w = w, OF assms(2)]
  note step2 = io_seq_Inl [where m = "io_bind (path_exists filename) (\<lambda>found.
      if \<not> found then subprocess_run env ''wget'' [url] else io_return ())" and w = w',
      OF body]
  have "up_to_install env w = raised_at ?w failure ''wget'' [url]"
    by (simp only: up_to_install_fetch [OF assms(1)] step1 step2 raised_at_def)
  then show ?thesis by (simp add: raised_at_def up_to_install_fails)
qed

lemma convert_bigwig_valid:
  "s \<in> {''hg19'', ''hg38''} \<Longrightarrow> t \<in> {''hg19'', ''hg38''} \<Longrightarrow> s \<noteq> t \<Longrightarrow>
     convert_bigwig env i out s t c = pipeline env i out s t c"
  by (auto simp: convert_bigwig_def)

subsection \<open>The checks of the assemblies and the failures of the stages\<close>

text \<open>
  Claim C7. \<open>convert_bigwig\<close> raises one of its two configuration errors exactly when
  the source or the target assembly is not one of \<open>hg19\<close> and \<open>hg38\<close>, or the two are
  equal; it then leaves the world as it was: no event in the trace (no process, no file
  access, no console output) and no change to the files. With source \<open>hg19\<close> and target
  \<open>hg19\<close> it raises "Source and target assemblies must be different".
\<close>

theorem assemblies_checked_before_any_effect:
  "((\<exists>m. fst (convert_bigwig env i out s t c w) = Inl (ConfigValueError m))
      = (s \<notin> {''hg19'', ''hg38''} \<or> t \<notin> {''hg19'', ''hg38''} \<or> s = t))
   \<and> (s \<notin> {''hg19'', ''hg38''} \<or> t \<notin> {''hg19'', ''hg38''} \<or> s = t
        \<longrightarrow> snd (convert_bigwig env i out s t c w) = w)
   \<and> convert_bigwig env i out ''hg19'' ''hg19'' c w
        = (Inl (ConfigValueError ''Source and target assemblies must be different''), w)"
  by (auto simp: convert_bigwig_def io_raise_def pipeline_not_config)

theorem assemblies_checked_before_any_effect_witness:
  "(\<exists>m. fst (convert_bigwig example_env ''in.bw'' ''out.bw'' ''hg38'' ''mm10'' True example_world)
        = Inl (ConfigValueError m))
   \<and> snd (convert_bigwig example_env ''in.bw'' ''out.bw'' ''hg38'' ''mm10'' True example_world)
        = example_world"
  using assemblies_checked_before_any_effect
          [of example_env "''in.bw''" "''out.bw''" "''hg38''" "''mm10''" True example_world]
  by simp

text \<open>
  Claim C8, as stated, does not hold: in the run below \<open>CrossMap\<close> exits with status 1,
  the driver returns normally, the later stages run and the output file is written.
\<close>

theorem nonzero_exit_is_fatal_counterexample:
  "fst example_run = Inr ()
   \<and> filter is_process_event (trace (snd example_run))
      = [Run ''pip'' [''install'', ''CrossMap''] 0,
         Run ''./bigWigToBedGraph'' [''in.bw'', ''input.bedGraph''] 0,
         Run ''CrossMap''
           [''bed'', ''hg19ToHg38.over.chain.gz'', ''input.bedGraph'', ''output.bedGraph''] 1,
         Run ''./bedClip''
           [''filtered_output.bedGraph'', ''hg38.chrom.sizes'', ''clipped_output.bedGraph''] 0,
         RunShell ''sort -k1,1 -k2,2n clipped_output.bedGraph > sorted_output.bedGraph'' 0,
         Run ''./bedGraphToBigWig''
           [''adjusted_output.bedGraph'', ''hg38.chrom.sizes'', ''out.bw''] 0]
   \<and> files (snd example_run) ''out.bw''
      = Some (''chr1'' @ [TAB] @ ''100'' @ [TAB] @ ''200'' @ [TAB] @ ''5.0'' @ [NL]
              @ ''chr1'' @ [TAB] @ ''200'' @ [TAB] @ ''250'' @ [TAB] @ ''3.0'' @ [NL])"
  by code_simp

text \<open>
  Claim C8, amended. When the driver calls a program with \<^verbatim>\<open>subprocess.run\<close> and a list,
  and the program cannot be started in the world of the call, \<open>convert_bigwig\<close> raises the
  exception of that failure (\<^verbatim>\<open>FileNotFoundError\<close> for a program that is not found,
  \<^verbatim>\<open>PermissionError\<close> for one that may not be executed, \<^verbatim>\<open>OSError\<close> otherwise) and ends in
  the world of the call with the failed start as its last event: nothing runs after it.
  This holds for \<^verbatim>\<open>wget\<close> on each resource that is missing, for \<^verbatim>\<open>pip\<close>,
  \<^verbatim>\<open>bigWigToBedGraph\<close>, \<^verbatim>\<open>CrossMap\<close>, \<^verbatim>\<open>bedClip\<close> and \<^verbatim>\<open>bedGraphToBigWig\<close>. In every run
  a failed start is the last event of the trace. The exit status of a stage is never
  looked at: with every status replaced by 0 the driver gives the same result, the same
  files and, up to the statuses recorded, the same trace.
\<close>

theorem failed_start_fatal_exit_status_ignored:
  "(s \<in> {''hg19'', ''hg38''} \<and> t \<in> {''hg19'', ''hg38''} \<and> s \<noteq> t \<longrightarrow>
      (\<forall>fetched url filename rest u w' failure.
         resources = fetched @ (url, filename) # rest
         \<and> up_to_fetch env fetched w = (Inr u, w') \<and> files w' filename = None
         \<and> exec env ''wget'' [url] (files w') = Inl failure
         \<longrightarrow> convert_bigwig env i out s t c w
               = raised_at (w'\<lparr>trace := trace w' @ [Exists filename]\<rparr>) failure ''wget'' [url])
    \<and> (\<forall>u w' failure.
         up_to_install env w = (Inr u, w')
         \<and> exec env ''pip'' [''install'', ''CrossMap''] (files w') = Inl failure
         \<longrightarrow> convert_bigwig env i out s t c w
               = raised_at w' failure ''pip'' [''install'', ''CrossMap''])
    \<and> (\<forall>tc w' failure.
         up_to_decode env t w = (Inr tc, w')
         \<and> exec env ''./bigWigToBedGraph'' [i, ''input.bedGraph''] (files w') = Inl failure
         \<longrightarrow> convert_bigwig env i out s t c w
               = raised_at w' failure ''./bigWigToBedGraph'' [i, ''input.bedGraph''])
    \<and> (\<forall>tc w' failure.
         up_to_lift env i t w = (Inr tc, w')
         \<and> exec env ''CrossMap''
              [''bed'', s @ ''To'' @ capitalize t @ ''.over.chain.gz'', ''input.bedGraph'',
               ''output.bedGraph''] (files w') = Inl failure
         \<longrightarrow> convert_bigwig env i out s t c w
               = raised_at w' failure ''CrossMap''
                   [''bed'', s @ ''To'' @ capitalize t @ ''.over.chain.gz'', ''input.bedGraph'',
                    ''output.bedGraph''])
    \<and> (\<forall>u w' failure.
         up_to_clip env i s t w = (Inr u, w')
         \<and> exec env ''./bedClip''
              [''filtered_output.bedGraph'', t @ ''.chrom.sizes'', ''clipped_output.bedGraph'']
              (files w') = Inl failure
         \<longrightarrow> convert_bigwig env i out s t c w
               = raised_at w' failure ''./bedClip''
                   [''filtered_output.bedGraph'', t @ ''.chrom.sizes'',
                    ''clipped_output.bedGraph''])
    \<and> (\<forall>u w' failure.
         up_to_encode env i s t w = (Inr u, w')
         \<and> exec env ''./bedGraphToBigWig''
              [''adjusted_output.bedGraph'', t @ ''.chrom.sizes'', out] (files w') = Inl failure
         \<longrightarrow> convert_bigwig env i out s t c w
               = raised_at w' failure ''./bedGraphToBigWig''
                   [''adjusted_output.bedGraph'', t @ ''.chrom.sizes'', out]))
   \<and> (no_exec_failed (trace w) \<longrightarrow>
        (\<forall>pre prog args post.
           trace (snd (convert_bigwig env i out s t c w)) = pre @ ExecFailed prog args # post
           \<longrightarrow> post = []
               \<and> (\<exists>failure. fst (convert_bigwig env i out s t c w)
                     = Inl (start_error failure prog))))
   \<and> fst (convert_bigwig (with_status_zero env) i out s t c w)
        = fst (convert_bigwig env i out s t c w)
   \<and> alike (snd (convert_bigwig (with_status_zero env) i out s t c w))
        (snd (convert_bigwig env i out s t c w))"
proof (intro conjI impI allI)
  fix fetched url filename rest u w' failure
  assume "s \<in> {''hg19'', ''hg38''} \<and> t \<in> {''hg19'', ''hg38''} \<and> s \<noteq> t"
    and "resources = fetched @ (url, filename) # rest
         \<and> up_to_fetch env fetched w = (Inr u, w') \<and> files w' filename = None
         \<and> exec env ''wget'' [url] (files w') = Inl failure"
  then show "convert_bigwig env i out s t c w
      = raised_at (w'\<lparr>trace := trace w' @ [Exists filename]\<rparr>) failure ''wget'' [url]"
    using call_fetch_fails [of fetched url filename rest env w u w' failure i out s t c]
    by (simp add: convert_bigwig_valid)
next
  fix u w' failure
  assume "s \<in> {''hg19'', ''hg38''} \<and> t \<in> {''hg19'', ''hg38''} \<and> s \<noteq> t"
    and "up_to_install env w = (Inr u, w')
         \<and> exec env ''pip'' [''install'', ''CrossMap''] (files w') = Inl failure"
  then show "convert_bigwig env i out s t c w
      = raised_at w' failure ''pip'' [''install'', ''CrossMap'']"
    by (simp add: convert_bigwig_valid call_install_fails)
next
  fix tc w' failure
  assume "s \<in> {''hg19'', ''hg38''} \<and> t \<in> {''hg19'', ''hg38''} \<and> s \<noteq> t"
    and "up_to_decode env t w = (Inr tc, w')
         \<and> exec env ''./bigWigToBedGraph'' [i, ''input.bedGraph''] (files w') = Inl failure"
  then show "convert_bigwig env i out s t c w
      = raised_at w' failure ''./bigWigToBedGraph'' [i, ''input.bedGraph'']"
    by (simp add: convert_bigwig_valid call_decode_fails)
next
  fix tc w' failure
  assume "s \<in> {''hg19'', ''hg38''} \<and> t \<in> {''hg19'', ''hg38''} \<and> s \<noteq> t"
    and "up_to_lift env i t w = (Inr tc, w')
         \<and> exec env ''CrossMap''
              [''bed'', s @ ''To'' @ capitalize t @ ''.over.chain.gz'', ''input.bedGraph'',
               ''output.bedGraph''] (files w') = Inl failure"
  then show "convert_bigwig env i out s t c w
      = raised_at w' failure ''CrossMap''
          [''bed'', s @ ''To'' @ capitalize t @ ''.over.chain.gz'', ''input.bedGraph'',
           ''output.bedGraph'']"
    by (simp add: convert_bigwig_valid call_lift_fails)
next
  fix u w' failure
  assume "s \<in> {''hg19'', ''hg38''} \<and> t \<in> {''hg19'', ''hg38''} \<and> s \<noteq> t"
    and "up_to_clip env i s t w = (Inr u, w')
         \<and> exec env ''./bedClip''
              [''filtered_output.bedGraph'', t @ ''.chrom.sizes'', ''clipped_output.bedGraph'']
              (files w') = Inl failure"
  then show "convert_bigwig env i out s t c w
      = raised_at w' failure ''./bedClip''
          [''filtered_output.bedGraph'', t @ ''.chrom.sizes'', ''clipped_output.bedGraph'']"
    by (simp add: convert_bigwig_valid call_clip_fails)
next
  fix u w' failure
  assume "s \<in> {''hg19'', ''hg38''} \<and> t \<in> {''hg19'', ''hg38''} \<and> s \<noteq> t"
    and "up_to_encode env i s t w = (Inr u, w')
         \<and> exec env ''./bedGraphToBigWig''
              [''adjusted_output.bedGraph'', t @ ''.chrom.sizes'', out] (files w') = Inl failure"
  then show "convert_bigwig env i out s t c w
      = raised_at w' failure ''./bedGraphToBigWig''
          [''adjusted_output.bedGraph'', t @ ''.chrom.sizes'', out]"
    by (simp add: convert_bigwig_valid call_encode_fails)
next
  fix pre prog args post
  assume clean: "no_exec_failed (trace w)"
    and tr: "trace (snd (convert_bigwig env i out s t c w)) = pre @ ExecFailed prog args # post"
  from stops_result [OF stops_convert_bigwig clean tr]
  show "post = []"
    and "\<exists>failure. fst (convert_bigwig env i out s t c w) = Inl (start_error failure prog)"
    by simp_all
next
  have "alike w w" by (simp add: alike_def)
  with sim_convert_bigwig [of env i out s t c]
  show "fst (convert_bigwig (with_status_zero env) i out s t c w)
        = fst (convert_bigwig env i out s t c w)"
    and "alike (snd (convert_bigwig (with_status_zero env) i out s t c w))
        (snd (convert_bigwig env i out s t c w))"
    unfolding sim_def by blast+
qed

theorem failed_start_fatal_exit_status_ignored_witness:
  "fst (up_to_lift example_env_no_crossmap ''in.bw'' ''hg38'' example_world) = Inr {''chr1''}
   \<and> exec example_env_no_crossmap ''CrossMap''
        [''bed'', ''hg19ToHg38.over.chain.gz'', ''input.bedGraph'', ''output.bedGraph'']
        (files (snd (up_to_lift example_env_no_crossmap ''in.bw'' ''hg38'' example_world)))
      = Inl NotFound
   \<and> fst (convert_bigwig example_env_no_crossmap ''in.bw'' ''out.bw'' ''hg19'' ''hg38'' True
            example_world)
      = Inl (FileNotFoundError ''CrossMap'')
   \<and> trace (snd (convert_bigwig example_env_no_crossmap ''in.bw'' ''out.bw'' ''hg19'' ''hg38''
            True example_world))
      = trace (snd (up_to_lift example_env_no_crossmap ''in.bw'' ''hg38'' example_world))
        @ [ExecFailed ''CrossMap''
             [''bed'', ''hg19ToHg38.over.chain.gz'', ''input.bedGraph'', ''output.bedGraph'']]"
proof -
  let ?pre = "up_to_lift example_env_no_crossmap ''in.bw'' ''hg38'' example_world"
  let ?args = "[''bed'', ''hg19ToHg38.over.chain.gz'', ''input.bedGraph'', ''output.bedGraph'']"
  have 1: "fst ?pre = Inr {''chr1''}" by code_simp
  then have 2: "?pre = (Inr {''chr1''}, snd ?pre)" by (simp add: prod_eq_iff)
  have 3: "exec example_env_no_crossmap ''CrossMap'' ?args (files (snd ?pre)) = Inl NotFound"
    by (simp add: example_env_no_crossmap_def)
  have 4: "''hg19'' @ ''To'' @ capitalize ''hg38'' @ ''.over.chain.gz''
      = ''hg19ToHg38.over.chain.gz''" by code_simp
  have "convert_bigwig example_env_no_crossmap ''in.bw'' ''out.bw'' ''hg19'' ''hg38'' True
      example_world = raised_at (snd ?pre) NotFound ''CrossMap'' ?args"
    using failed_start_fatal_exit_status_ignored
            [of "''hg19''" "''hg38''" example_env_no_crossmap example_world "''in.bw''"
                "''out.bw''" True]
          2 3
    unfolding 4 by blast
  with 1 3 show ?thesis by (simp add: raised_at_def)
qed

end
